theory Spec2Isabelle
  imports Complex_Main "HOL-Library.Multiset" "HOL-Library.Sublist"
begin

section \<open>Simulator constants (config/simulator\_constants.js)\<close>

text \<open>
  JavaScript numbers are modelled as real numbers: every arithmetic expression of the
  source is kept as written and read over \<^typ>\<open>real\<close>. The rounding of doubles is added
  in the section on floating point arithmetic, where the three processes are written once
  more with a rounding function; what is said about the states that a run reaches is
  proved there, for every rounding. Counters that only ever hold small non-negative
  integers (\<open>numSends\<close>, \<open>numIterations\<close>, array lengths) are \<^typ>\<open>nat\<close>. Calls to the
  logger have no effect on the data and are left out.
\<close>

definition EPS :: real where
  "EPS = 1 / 1000000000"

definition NUM_ITERATIONS :: nat where
  "NUM_ITERATIONS = 100000"

definition MAX_NUM_SENDS_PER_KEY :: nat where
  "MAX_NUM_SENDS_PER_KEY = 100"

definition SEND_INTERVAL :: real where
  "SEND_INTERVAL = 100"

definition DT :: real where
  "DT = 0.1"

definition X1 :: real where
  "X1 = 425205.75"

definition X2 :: real where
  "X2 = 325000"

definition X3 :: real where
  "X3 = 1.7"

definition FUEL_ADD_AMT :: real where
  "FUEL_ADD_AMT = 1.0"

definition MAX_FUEL_MASS_IN_FIRE_CHAMBER :: real where
  "MAX_FUEL_MASS_IN_FIRE_CHAMBER = 10.0"

definition PRESSURE_MULTIPLIER :: real where
  "PRESSURE_MULTIPLIER = 2.0"

definition FUEL_BURN_AMT :: real where
  "FUEL_BURN_AMT = 0.1"

definition INITIAL_FUEL_MASS_IN_TENDER :: real where
  "INITIAL_FUEL_MASS_IN_TENDER = 12700"

definition LOCOMOTIVE_OWN_MASS :: real where
  "LOCOMOTIVE_OWN_MASS = 500000.0"

definition MAX_ALLOWED_PRESSURE :: real where
  "MAX_ALLOWED_PRESSURE = 21.800000000007"

definition MAX_ALLOWED_SPEED :: real where
  "MAX_ALLOWED_SPEED = 27.41731"

definition MIN_ALLOWED_FUEL_MASS_IN_TENDER :: real where
  "MIN_ALLOWED_FUEL_MASS_IN_TENDER = 2800"

definition WAIT_SECONDS_BETWEEN_FAILED_REQUESTS :: nat where
  "WAIT_SECONDS_BETWEEN_FAILED_REQUESTS = 5"

definition MAX_NODES_TO_QUEUE_PER_SEND :: nat where
  "MAX_NODES_TO_QUEUE_PER_SEND = 10"

section \<open>The locomotive model: state and transfer functions\<close>

record State =
  distance :: real
  fuelMassBurning :: real
  fuelMassInTender :: real
  fuelMassInFireChamber :: real
  locomotiveOwnMass :: real
  pressure :: real
  speed :: real
  time :: real

text \<open>\<open>model.state\<close>: the variables of the system and their initial values.\<close>

definition initial_state :: State where
  "initial_state =
     \<lparr> distance = 0, fuelMassBurning = 0,
       fuelMassInTender = INITIAL_FUEL_MASS_IN_TENDER,
       fuelMassInFireChamber = 0,
       locomotiveOwnMass = LOCOMOTIVE_OWN_MASS,
       pressure = 0, speed = 0, time = 0 \<rparr>"

text \<open>The process named \<open>Fireman\<close>: moves fuel from the tender into the fire chamber.\<close>

definition Fireman :: "State \<Rightarrow> State" where
  "Fireman state =
     (if fuelMassInTender state < 0 \<or>
         fuelMassInFireChamber state > MAX_FUEL_MASS_IN_FIRE_CHAMBER
      then state
      else state\<lparr> fuelMassInTender := fuelMassInTender state - FUEL_ADD_AMT,
                  fuelMassInFireChamber := fuelMassInFireChamber state + FUEL_ADD_AMT \<rparr>)"

text \<open>
  The process named \<open>Fire Chamber\<close>. The source copies the state into \<open>res\<close> and
  assigns to its fields one after the other; each \<open>res\<close> below is the object after one
  assignment.
\<close>

definition FireChamber :: "State \<Rightarrow> State" where
  "FireChamber state =
     (let res = state;
          res = (if fuelMassBurning res < fuelMassInFireChamber res
                 then res\<lparr> fuelMassBurning :=
                             min (fuelMassInFireChamber res) (FUEL_ADD_AMT + fuelMassBurning res) \<rparr>
                 else res);
          res = res\<lparr> pressure := PRESSURE_MULTIPLIER * fuelMassBurning res \<rparr>;
          res = res\<lparr> fuelMassBurning := max 0 (fuelMassBurning res - FUEL_BURN_AMT) \<rparr>;
          res = res\<lparr> fuelMassInFireChamber :=
                       max 0 (fuelMassInFireChamber res - FUEL_BURN_AMT) \<rparr>
      in res)"

text \<open>
  The process named \<open>Movement\<close>. The division is the real one; the mass is positive when
  the tender holds at least \<open>- FUEL_ADD_AMT\<close> and the fire chamber is not negative (lemma
  \<open>mass_positive\<close>).
\<close>

definition Movement :: "State \<Rightarrow> State" where
  "Movement state =
     (let mass = locomotiveOwnMass state + fuelMassInTender state + fuelMassInFireChamber state;
          a = (X1 * pressure state - X2 * speed state) / mass;
          a = (if speed state = 0 \<and> \<bar>a\<bar> < X3 then 0 else a)
      in state\<lparr> speed := speed state + DT * a,
                 distance := distance state + DT * speed state,
                 time := time state + DT \<rparr>)"

text \<open>\<open>model.processes\<close> and the loop of \<open>runSimulation\<close> that applies them in order.\<close>

definition processes :: "(State \<Rightarrow> State) list" where
  "processes = [Fireman, FireChamber, Movement]"

definition advance :: "State \<Rightarrow> State" where
  "advance state = foldl (\<lambda>s transferFunction. transferFunction s) state processes"

section \<open>The transfer functions in floating point arithmetic\<close>

text \<open>
  A JavaScript number is an IEEE 754 double: a numeric literal denotes the double nearest
  to it, and \<open>+\<close>, \<open>-\<close>, \<open>*\<close>, \<open>/\<close> return the exact result rounded to the nearest double;
  comparisons, \<open>Math.min\<close>, \<open>Math.max\<close> and \<open>Math.abs\<close> are exact. Below, \<open>r\<close> is the
  rounding: it is applied to every constant and to the result of every operation of the
  three processes, in the order the source evaluates them. Infinities and NaN are left
  out.

  \<open>rounding r\<close> collects what is used of \<open>r\<close>: it is monotone, it returns its own values
  unchanged, and \<open>0\<close>, \<open>1\<close> and \<open>-1\<close> are among them. Rounding to the nearest double is such
  a function; so is the identity, for which the processes are the ones above (lemma
  \<open>fl_exact\<close>), and so is rounding to a multiple of \<open>1/1024\<close> (lemma \<open>rounding_grid\<close>).
\<close>

definition rounding :: "(real \<Rightarrow> real) \<Rightarrow> bool" where
  "rounding r \<longleftrightarrow>
     (\<forall>x y. x \<le> y \<longrightarrow> r x \<le> r y) \<and> (\<forall>x. r (r x) = r x) \<and> r 0 = 0 \<and> r 1 = 1 \<and> r (- 1) = - 1"


definition initial_state_fl :: "(real \<Rightarrow> real) \<Rightarrow> State" where
  "initial_state_fl r =
     \<lparr> distance = r 0, fuelMassBurning = r 0,
       fuelMassInTender = r INITIAL_FUEL_MASS_IN_TENDER,
       fuelMassInFireChamber = r 0,
       locomotiveOwnMass = r LOCOMOTIVE_OWN_MASS,
       pressure = r 0, speed = r 0, time = r 0 \<rparr>"

definition Fireman_fl :: "(real \<Rightarrow> real) \<Rightarrow> State \<Rightarrow> State" where
  "Fireman_fl r state =
     (if fuelMassInTender state < r 0 \<or>
         fuelMassInFireChamber state > r MAX_FUEL_MASS_IN_FIRE_CHAMBER
      then state
      else state\<lparr> fuelMassInTender := r (fuelMassInTender state - r FUEL_ADD_AMT),
                  fuelMassInFireChamber := r (fuelMassInFireChamber state + r FUEL_ADD_AMT) \<rparr>)"

definition FireChamber_fl :: "(real \<Rightarrow> real) \<Rightarrow> State \<Rightarrow> State" where
  "FireChamber_fl r state =
     (let res = state;
          res = (if fuelMassBurning res < fuelMassInFireChamber res
                 then res\<lparr> fuelMassBurning :=
                             min (fuelMassInFireChamber res)
                                 (r (r FUEL_ADD_AMT + fuelMassBurning res)) \<rparr>
                 else res);
          res = res\<lparr> pressure := r (r PRESSURE_MULTIPLIER * fuelMassBurning res) \<rparr>;
          res = res\<lparr> fuelMassBurning := max (r 0) (r (fuelMassBurning res - r FUEL_BURN_AMT)) \<rparr>;
          res = res\<lparr> fuelMassInFireChamber :=
                       max (r 0) (r (fuelMassInFireChamber res - r FUEL_BURN_AMT)) \<rparr>
      in res)"

definition Movement_fl :: "(real \<Rightarrow> real) \<Rightarrow> State \<Rightarrow> State" where
  "Movement_fl r state =
     (let mass = r (r (locomotiveOwnMass state + fuelMassInTender state) +
                    fuelMassInFireChamber state);
          a = r (r (r (r X1 * pressure state) - r (r X2 * speed state)) / mass);
          a = (if speed state = r 0 \<and> \<bar>a\<bar> < r X3 then r 0 else a)
      in state\<lparr> speed := r (speed state + r (r DT * a)),
                 distance := r (distance state + r (r DT * speed state)),
                 time := r (time state + r DT) \<rparr>)"

definition processes_fl :: "(real \<Rightarrow> real) \<Rightarrow> (State \<Rightarrow> State) list" where
  "processes_fl r = [Fireman_fl r, FireChamber_fl r, Movement_fl r]"

definition advance_fl :: "(real \<Rightarrow> real) \<Rightarrow> State \<Rightarrow> State" where
  "advance_fl r state = foldl (\<lambda>s transferFunction. transferFunction s) state (processes_fl r)"

text \<open>
  The state after \<open>n\<close> iterations of the pipeline, from the initial state. The program
  stops after \<open>NUM_ITERATIONS\<close> of them; \<open>n\<close> is not bounded here.
\<close>

definition run_fl :: "(real \<Rightarrow> real) \<Rightarrow> nat \<Rightarrow> State" where
  "run_fl r n = (advance_fl r ^^ n) (initial_state_fl r)"

section \<open>Sampling: \<open>model.history\<close> and \<open>model.sendDataToPredix\<close>\<close>

record history_entry =
  prevTimeSent :: real
  numSends :: nat

text \<open>
  The module-level variables of the simulator: \<open>state\<close>, \<open>model.history\<close>, \<open>numIterations\<close>
  and the service instances. The type of the service instances is a parameter, so that the
  sampling code can be read with any sink.
\<close>

record 'w simulator =
  state :: State
  history :: "string \<rightharpoonup> history_entry"
  numIterations :: nat
  services :: 'w

text \<open>
  \<open>model.sendDataToPredix(key, data, sendData, methodName, typeOfService)\<close>. The last two
  arguments are only logged. \<open>sendData\<close> is the method of a service; it acts on the service
  instances. The body runs synchronously inside \<open>Promise.try\<close>.
\<close>

definition sendDataToPredix ::
  "string \<Rightarrow> 'd \<Rightarrow> ('d \<Rightarrow> 'w \<Rightarrow> 'w) \<Rightarrow> 'w simulator \<Rightarrow> 'w simulator" where
  "sendDataToPredix key data sendData m =
     (let sends = (case history m key of None \<Rightarrow> 0 | Some h \<Rightarrow> numSends h);
          timeDiff = (case history m key of None \<Rightarrow> - 1
                      | Some h \<Rightarrow> time (state m) - prevTimeSent h)
      in if sends < MAX_NUM_SENDS_PER_KEY \<and>
            (timeDiff = - 1 \<or> timeDiff + EPS \<ge> SEND_INTERVAL)
         then let m = m\<lparr> services := sendData data (services m) \<rparr>
              in (case history m key of
                    None \<Rightarrow>
                      m\<lparr> history := (history m)(key \<mapsto>
                            \<lparr> prevTimeSent = time (state m), numSends = 1 \<rparr>) \<rparr>
                  | Some h \<Rightarrow>
                      m\<lparr> history := (history m)(key \<mapsto>
                            \<lparr> prevTimeSent = time (state m), numSends = numSends h + 1 \<rparr>) \<rparr>)
         else m)"

text \<open>A sink that only records what it is handed, in the order of the calls.\<close>

definition record_sent :: "'d \<Rightarrow> 'd list \<Rightarrow> 'd list" where
  "record_sent d sent = sent @ [d]"

text \<open>
  A sequence of calls of \<open>model.sendDataToPredix\<close>, each given by its key and the value of
  \<open>state.time\<close> at the call; the recording sink is handed the key.
\<close>

fun sampled :: "(string \<times> real) list \<Rightarrow> string list simulator \<Rightarrow> string list simulator" where
  "sampled [] m = m"
| "sampled ((k, t) # calls) m =
     sampled calls (sendDataToPredix k k record_sent (m\<lparr> state := (state m)\<lparr> time := t \<rparr> \<rparr>))"

section \<open>Helper (src/common/helper.js)\<close>

text \<open>
  \<open>Helper.getPredixToken\<close>: the call of the UAA client either yields a token object or
  raises; the \<open>catch\<close> turns the error into the value \<open>'no_token'\<close>.
\<close>

datatype uaa_result = Granted string | Rejected

definition getPredixToken :: "uaa_result \<Rightarrow> string" where
  "getPredixToken r = (case r of Granted access_token \<Rightarrow> access_token | Rejected \<Rightarrow> ''no_token'')"


text \<open>A queue node \<open>{ key: Helper.getId(), data }\<close>.\<close>

record 'd node =
  key :: string
  data :: 'd

text \<open>
  \<open>Helper.setItemsInProgress(queue, itemsInProgress)\<close>: the \<open>_.forEach\<close> over the queue that
  pushes each node and stops (\<open>return false\<close>) when the length reaches the limit. The result
  is the array \<open>itemsInProgress\<close> after the call; the queue is not written.
\<close>

fun setItemsInProgress :: "'d node list \<Rightarrow> 'd node list \<Rightarrow> 'd node list" where
  "setItemsInProgress [] itemsInProgress = itemsInProgress"
| "setItemsInProgress (n # queue) itemsInProgress =
     (let itemsInProgress = itemsInProgress @ [n]
      in if length itemsInProgress = MAX_NODES_TO_QUEUE_PER_SEND then itemsInProgress
         else setItemsInProgress queue itemsInProgress)"

text \<open>
  \<open>Helper.removeProcessedItemsFromQueue(queue, itemsInProgress, serviceType)\<close>: for each item
  in progress, \<open>_.remove(queue, { key: item.key })\<close> deletes every node of the queue whose key
  equals the item's key. The result is the queue after the call.
\<close>

definition removeProcessedItemsFromQueue :: "'d node list \<Rightarrow> 'd node list \<Rightarrow> 'd node list" where
  "removeProcessedItemsFromQueue queue itemsInProgress =
     foldl (\<lambda>q item. filter (\<lambda>n. key n \<noteq> key item) q) queue itemsInProgress"

section \<open>The services (src/services)\<close>

text \<open>
  What a service does to the outside world is recorded in the order it happens: the POST
  request (with the token and the nodes its body is built from), the creation of a web
  socket (with the token of its \<open>Authorization\<close> header), \<open>ws.send\<close> (with the nodes the
  payload is built from), \<open>ws.close\<close>, \<open>setTimeout\<close> of the retry callback (with the delay
  in milliseconds) and the call of \<open>Helper.getPredixToken\<close>.
\<close>

datatype 'd effect =
    Post string "'d node list"
  | CreateWebSocket string
  | WsSend "'d node list"
  | WsClose
  | SetTimeout nat
  | GetPredixToken

text \<open>
  The module-level variables both services declare. \<open>itemsInProgress\<close> has no value before
  the first drain; it is read only after a drain has assigned it, and starts as \<open>[]\<close> here.
\<close>

record 'd service =
  queue :: "'d node list"
  isOperationInProgress :: bool
  itemsInProgress :: "'d node list"
  token :: string
  effects :: "'d effect list"

subsection \<open>asset\_service.js\<close>

text \<open>The data of an alert, \<open>{ key, val, time, msg }\<close>, as \<open>model.toAsset\<close> builds it.\<close>

record alert =
  alertKey :: string
  val :: real
  alertTime :: real
  msg :: string

record AssetService = "alert service" +
  totSent :: "string \<rightharpoonup> nat"

definition new_AssetService :: "string \<Rightarrow> AssetService" where
  "new_AssetService tok =
     \<lparr> queue = [], isOperationInProgress = False, itemsInProgress = [], token = tok,
       effects = [], totSent = Map.empty \<rparr>"

definition processAssetData :: "AssetService \<Rightarrow> AssetService" where
  "processAssetData s =
     (if isOperationInProgress s then s
      else let s = s\<lparr> isOperationInProgress := True \<rparr>;
               s = s\<lparr> itemsInProgress := setItemsInProgress (queue s) [] \<rparr>
           in if length (itemsInProgress s) = 0 then s\<lparr> isOperationInProgress := False \<rparr>
              else s\<lparr> effects := effects s @ [Post (token s) (itemsInProgress s)] \<rparr>)"

text \<open>
  \<open>handlePostResponse(err, res, body)\<close>; \<open>res_ok\<close> is \<open>res.ok\<close>. On failure the retry
  callback is handed to \<open>setTimeout\<close>.
\<close>

definition handlePostResponse :: "bool \<Rightarrow> bool \<Rightarrow> AssetService \<Rightarrow> AssetService" where
  "handlePostResponse err res_ok s =
     (if err \<or> \<not> res_ok
      then let s = s\<lparr> isOperationInProgress := False \<rparr>
           in s\<lparr> effects := effects s @ [SetTimeout (WAIT_SECONDS_BETWEEN_FAILED_REQUESTS * 1000)] \<rparr>
      else let s = s\<lparr> totSent :=
                        foldl (\<lambda>t n. t(alertKey (data n) \<mapsto>
                                  (case t (alertKey (data n)) of None \<Rightarrow> 0 | Some c \<Rightarrow> c) + 1))
                          (totSent s) (itemsInProgress s) \<rparr>;
               s = s\<lparr> queue := removeProcessedItemsFromQueue (queue s) (itemsInProgress s) \<rparr>;
               s = s\<lparr> isOperationInProgress := False \<rparr>
           in if length (queue s) \<noteq> 0 then processAssetData s else s)"

text \<open>
  The retry callback is an \<open>async\<close> function: \<open>assetRetry_start\<close> is its part up to the
  \<open>await\<close> of \<open>Helper.getPredixToken\<close>, \<open>assetRetry_resume\<close> the part after it, given the value
  the call resolved to.
\<close>

definition assetRetry_start :: "AssetService \<Rightarrow> AssetService" where
  "assetRetry_start s =
     (let s = s\<lparr> isOperationInProgress := False \<rparr>
      in s\<lparr> effects := effects s @ [GetPredixToken] \<rparr>)"

definition assetRetry_resume :: "string \<Rightarrow> AssetService \<Rightarrow> AssetService" where
  "assetRetry_resume tok s = processAssetData (s\<lparr> token := tok \<rparr>)"

text \<open>\<open>AssetService.sendDataToPredix(data)\<close>; \<open>newId\<close> is the value of \<open>Helper.getId()\<close>.\<close>

definition AssetService_sendDataToPredix :: "string \<Rightarrow> alert \<Rightarrow> AssetService \<Rightarrow> AssetService" where
  "AssetService_sendDataToPredix newId d s =
     processAssetData (s\<lparr> queue := queue s @ [\<lparr> key = newId, data = d \<rparr>] \<rparr>)"

definition AssetService_isFinished :: "AssetService \<Rightarrow> bool" where
  "AssetService_isFinished s \<longleftrightarrow> length (queue s) = 0 \<and> \<not> isOperationInProgress s"

subsection \<open>time\_series\_service.js\<close>

text \<open>
  \<open>ws\<close> says whether the variable \<open>ws\<close> holds a socket. \<open>awaiting\<close> holds the payload of the
  call of \<open>processTimeSeriesData\<close> that is suspended at \<open>await createWebSocket()\<close>, if any.
\<close>

record TimeSeriesService = "State service" +
  ws :: bool
  awaiting :: "State node list option"
  totSentTs :: nat

definition new_TimeSeriesService :: "string \<Rightarrow> TimeSeriesService" where
  "new_TimeSeriesService tok =
     \<lparr> queue = [], isOperationInProgress = False, itemsInProgress = [], token = tok,
       effects = [], ws = False, awaiting = None, totSentTs = 0 \<rparr>"

definition processTimeSeriesData :: "TimeSeriesService \<Rightarrow> TimeSeriesService" where
  "processTimeSeriesData s =
     (if isOperationInProgress s then s
      else let s = s\<lparr> isOperationInProgress := True \<rparr>;
               s = s\<lparr> itemsInProgress := setItemsInProgress (queue s) [] \<rparr>
           in if length (itemsInProgress s) = 0 then s\<lparr> isOperationInProgress := False \<rparr>
              else if \<not> ws s
                   then s\<lparr> ws := True, awaiting := Some (itemsInProgress s),
                           effects := effects s @ [CreateWebSocket (token s)] \<rparr>
                   else s\<lparr> effects := effects s @ [WsSend (itemsInProgress s)] \<rparr>)"

text \<open>The socket's \<open>open\<close> event resolves the promise; the suspended call goes on to \<open>ws.send\<close>.\<close>

definition ws_onopen :: "TimeSeriesService \<Rightarrow> TimeSeriesService" where
  "ws_onopen s =
     (case awaiting s of
        None \<Rightarrow> s
      | Some payload \<Rightarrow>
          (if ws s then s\<lparr> awaiting := None, effects := effects s @ [WsSend payload] \<rparr>
           else s\<lparr> awaiting := None \<rparr>))"

definition ws_onmessage :: "TimeSeriesService \<Rightarrow> TimeSeriesService" where
  "ws_onmessage s =
     (let s = s\<lparr> totSentTs := totSentTs s + length (itemsInProgress s) \<rparr>;
          s = s\<lparr> queue := removeProcessedItemsFromQueue (queue s) (itemsInProgress s) \<rparr>;
          s = s\<lparr> isOperationInProgress := False \<rparr>
      in if length (queue s) \<noteq> 0 then processTimeSeriesData s
         else s\<lparr> ws := False, effects := effects s @ [WsClose] \<rparr>)"

definition ws_onerror :: "TimeSeriesService \<Rightarrow> TimeSeriesService" where
  "ws_onerror s =
     (let s = s\<lparr> ws := False \<rparr>
      in s\<lparr> effects := effects s @ [SetTimeout (WAIT_SECONDS_BETWEEN_FAILED_REQUESTS * 1000)] \<rparr>)"

definition timeSeriesRetry_start :: "TimeSeriesService \<Rightarrow> TimeSeriesService" where
  "timeSeriesRetry_start s =
     (let s = s\<lparr> isOperationInProgress := False \<rparr>
      in s\<lparr> effects := effects s @ [GetPredixToken] \<rparr>)"

definition timeSeriesRetry_resume :: "string \<Rightarrow> TimeSeriesService \<Rightarrow> TimeSeriesService" where
  "timeSeriesRetry_resume tok s = processTimeSeriesData (s\<lparr> token := tok \<rparr>)"

definition TimeSeriesService_sendDataToPredix ::
  "string \<Rightarrow> State \<Rightarrow> TimeSeriesService \<Rightarrow> TimeSeriesService" where
  "TimeSeriesService_sendDataToPredix newId d s =
     processTimeSeriesData (s\<lparr> queue := queue s @ [\<lparr> key = newId, data = d \<rparr>] \<rparr>)"

definition TimeSeriesService_isFinished :: "TimeSeriesService \<Rightarrow> bool" where
  "TimeSeriesService_isFinished s \<longleftrightarrow> length (queue s) = 0 \<and> \<not> isOperationInProgress s"

section \<open>The simulator: \<open>onStateChange\<close> and \<open>runSimulation\<close>\<close>

record predix =
  timeSeriesService :: TimeSeriesService
  assetService :: AssetService

text \<open>
  \<open>model.toTimeSeries\<close> and \<open>model.toAsset\<close>. \<open>newId\<close> is the value \<open>Helper.getId()\<close> returns
  if the service method is called. \<open>toAsset\<close> reads the time from the variable \<open>state\<close>.
\<close>

definition toTimeSeries :: "string \<Rightarrow> State \<Rightarrow> predix simulator \<Rightarrow> predix simulator" where
  "toTimeSeries newId st m =
     sendDataToPredix ''timeSeries'' st
       (\<lambda>d w. w\<lparr> timeSeriesService :=
                   TimeSeriesService_sendDataToPredix newId d (timeSeriesService w) \<rparr>) m"

definition toAsset ::
  "string \<Rightarrow> string \<Rightarrow> real \<Rightarrow> string \<Rightarrow> predix simulator \<Rightarrow> predix simulator" where
  "toAsset newId k v message m =
     sendDataToPredix k \<lparr> alertKey = k, val = v, alertTime = time (state m), msg = message \<rparr>
       (\<lambda>d w. w\<lparr> assetService := AssetService_sendDataToPredix newId d (assetService w) \<rparr>) m"

text \<open>
  \<open>model.onStateChange\<close>, applied to the new state in the order of the array. \<open>newIds\<close> gives,
  for each sampling key, the id of the node enqueued for it in this iteration.
\<close>

definition onStateChange :: "(string \<Rightarrow> string) \<Rightarrow> predix simulator \<Rightarrow> predix simulator" where
  "onStateChange newIds m =
     (let st = state m;
          m = toTimeSeries (newIds ''timeSeries'') st m;
          m = (if pressure st > MAX_ALLOWED_PRESSURE
               then toAsset (newIds ''pressure'') ''pressure'' (pressure st)
                      ''Maximum pressure has been exceeded!'' m
               else m);
          m = (if speed st > MAX_ALLOWED_SPEED
               then toAsset (newIds ''speed'') ''speed'' (speed st)
                      ''Maximum speed has been exceeded!'' m
               else m);
          m = (if fuelMassInTender st < MIN_ALLOWED_FUEL_MASS_IN_TENDER
               then toAsset (newIds ''fuelMassInTender'') ''fuelMassInTender'' (fuelMassInTender st)
                      ''Fuel mass in tender is too low!'' m
               else m)
      in m)"

text \<open>
  The variables as the module leaves them before the first call of \<open>runSimulation\<close>: the two
  service variables are declared without a value and are assigned in the first call.
\<close>

definition initial_simulator :: "predix simulator" where
  "initial_simulator =
     \<lparr> state = initial_state, history = Map.empty, numIterations = 0, services = undefined \<rparr>"

text \<open>
  One call of \<open>runSimulation\<close>. \<open>tok\<close> is the value the awaited \<open>Helper.getPredixToken\<close>
  resolves to; it is read in the first call only. At the iteration limit the call only
  polls and logs (\<open>finishSimulation\<close>).
\<close>

definition runSimulation ::
  "string \<Rightarrow> (string \<Rightarrow> string) \<Rightarrow> predix simulator \<Rightarrow> predix simulator" where
  "runSimulation tok newIds m =
     (let m = (if numIterations m = 0
               then m\<lparr> services := \<lparr> timeSeriesService = new_TimeSeriesService tok,
                                     assetService = new_AssetService tok \<rparr> \<rparr>
               else m)
      in if numIterations m \<ge> NUM_ITERATIONS then m
         else let m = m\<lparr> numIterations := numIterations m + 1 \<rparr>;
                  m = m\<lparr> state := advance (state m) \<rparr>
              in onStateChange newIds m)"

text \<open>Successive calls of \<open>runSimulation\<close>, each with its token value and ids.\<close>

fun iterations ::
  "(string \<times> (string \<Rightarrow> string)) list \<Rightarrow> predix simulator \<Rightarrow> predix simulator" where
  "iterations [] m = m"
| "iterations ((tok, newIds) # rest) m = iterations rest (runSimulation tok newIds m)"

text \<open>
  Counting, for a sampling key: the sends so far as \<open>model.sendDataToPredix\<close> reads them
  from the history, and the nodes in the two queues that were enqueued for the key (the
  states of the time series service for the key \<open>timeSeries\<close>, the alerts of the asset
  service for the key they carry).
\<close>

definition sends_so_far :: "'w simulator \<Rightarrow> string \<Rightarrow> nat" where
  "sends_so_far m k = (case history m k of None \<Rightarrow> 0 | Some h \<Rightarrow> numSends h)"

definition enqueued_for :: "string \<Rightarrow> predix \<Rightarrow> nat" where
  "enqueued_for k w =
     (if k = ''timeSeries'' then length (queue (timeSeriesService w)) else 0) +
     length (filter (\<lambda>n. alertKey (data n) = k) (queue (assetService w)))"

section \<open>Histories of a delivery queue\<close>


text \<open>
  What can happen to the asset service: a call of \<open>sendDataToPredix\<close>, the response to a
  POST request (\<open>err\<close>, \<open>res.ok\<close>), and the two parts of the retry callback.
\<close>

datatype asset_event =
    AssetSend string alert
  | AssetResponse bool bool
  | AssetRetryStart
  | AssetRetryResume string

fun asset_step :: "asset_event \<Rightarrow> AssetService \<Rightarrow> AssetService" where
  "asset_step (AssetSend newId d) s = AssetService_sendDataToPredix newId d s"
| "asset_step (AssetResponse err res_ok) s = handlePostResponse err res_ok s"
| "asset_step AssetRetryStart s = assetRetry_start s"
| "asset_step (AssetRetryResume tok) s = assetRetry_resume tok s"

text \<open>The same for the time series service, with the events of its socket.\<close>

datatype ts_event =
    TsSend string State
  | TsOpen
  | TsMessage
  | TsError
  | TsRetryStart
  | TsRetryResume string

fun ts_step :: "ts_event \<Rightarrow> TimeSeriesService \<Rightarrow> TimeSeriesService" where
  "ts_step (TsSend newId d) s = TimeSeriesService_sendDataToPredix newId d s"
| "ts_step TsOpen s = ws_onopen s"
| "ts_step TsMessage s = ws_onmessage s"
| "ts_step TsError s = ws_onerror s"
| "ts_step TsRetryStart s = timeSeriesRetry_start s"
| "ts_step (TsRetryResume tok) s = timeSeriesRetry_resume tok s"

text \<open>
  Along a sequence of events: the nodes enqueued, and the nodes taken out of the queue (the
  nodes of the queue before an event that are not in the queue after it), both in order.
\<close>

fun asset_enqueued :: "asset_event list \<Rightarrow> alert node list" where
  "asset_enqueued [] = []"
| "asset_enqueued (AssetSend newId d # es) = \<lparr> key = newId, data = d \<rparr> # asset_enqueued es"
| "asset_enqueued (e # es) = asset_enqueued es"

fun asset_run :: "asset_event list \<Rightarrow> AssetService \<Rightarrow> AssetService" where
  "asset_run [] s = s"
| "asset_run (e # es) s = asset_run es (asset_step e s)"

fun asset_removed :: "asset_event list \<Rightarrow> AssetService \<Rightarrow> alert node list" where
  "asset_removed [] s = []"
| "asset_removed (e # es) s =
     filter (\<lambda>n. n \<notin> set (queue (asset_step e s))) (queue s) @ asset_removed es (asset_step e s)"

fun ts_enqueued :: "ts_event list \<Rightarrow> State node list" where
  "ts_enqueued [] = []"
| "ts_enqueued (TsSend newId d # es) = \<lparr> key = newId, data = d \<rparr> # ts_enqueued es"
| "ts_enqueued (e # es) = ts_enqueued es"

fun ts_run :: "ts_event list \<Rightarrow> TimeSeriesService \<Rightarrow> TimeSeriesService" where
  "ts_run [] s = s"
| "ts_run (e # es) s = ts_run es (ts_step e s)"

fun ts_removed :: "ts_event list \<Rightarrow> TimeSeriesService \<Rightarrow> State node list" where
  "ts_removed [] s = []"
| "ts_removed (e # es) s =
     filter (\<lambda>n. n \<notin> set (queue (ts_step e s))) (queue s) @ ts_removed es (ts_step e s)"

section \<open>Transfer functions: properties\<close>

lemma advance_eq: "advance s = Movement (FireChamber (Fireman s))"
  by (simp add: advance_def processes_def)

lemma Movement_fields [simp]:
  "fuelMassBurning (Movement s) = fuelMassBurning s"
  "fuelMassInFireChamber (Movement s) = fuelMassInFireChamber s"
  "fuelMassInTender (Movement s) = fuelMassInTender s"
  "locomotiveOwnMass (Movement s) = locomotiveOwnMass s"
  "pressure (Movement s) = pressure s"
  by (simp_all add: Movement_def Let_def)

lemma Fireman_fields [simp]:
  "fuelMassBurning (Fireman s) = fuelMassBurning s"
  "locomotiveOwnMass (Fireman s) = locomotiveOwnMass s"
  "pressure (Fireman s) = pressure s"
  by (simp_all add: Fireman_def)

lemma FireChamber_fields [simp]:
  "fuelMassInTender (FireChamber s) = fuelMassInTender s"
  "locomotiveOwnMass (FireChamber s) = locomotiveOwnMass s"
  by (simp_all add: FireChamber_def Let_def)

subsection \<open>The Fuel Transfer stage\<close>

text \<open>
  C5. The Fireman returns the state as it is when the tender mass is negative or the
  fire-chamber mass exceeds \<open>MAX_FUEL_MASS_IN_FIRE_CHAMBER\<close>; otherwise it returns the state
  with \<open>FUEL_ADD_AMT\<close> subtracted from the tender mass and added to the fire-chamber mass
  and every other field as it was. The function is total and has no error result.
\<close>

theorem Fireman_transfer:
  "(fuelMassInTender s < 0 \<or> fuelMassInFireChamber s > MAX_FUEL_MASS_IN_FIRE_CHAMBER
      \<longrightarrow> Fireman s = s) \<and>
   (\<not> (fuelMassInTender s < 0 \<or> fuelMassInFireChamber s > MAX_FUEL_MASS_IN_FIRE_CHAMBER)
      \<longrightarrow> Fireman s =
           \<lparr> distance = distance s, fuelMassBurning = fuelMassBurning s,
             fuelMassInTender = fuelMassInTender s - FUEL_ADD_AMT,
             fuelMassInFireChamber = fuelMassInFireChamber s + FUEL_ADD_AMT,
             locomotiveOwnMass = locomotiveOwnMass s, pressure = pressure s,
             speed = speed s, time = time s \<rparr>)"
  by (simp add: Fireman_def)

theorem Fireman_transfer_witness:
  "(fuelMassInTender (initial_state\<lparr> fuelMassInTender := - 1 \<rparr>) < 0 \<and>
    Fireman (initial_state\<lparr> fuelMassInTender := - 1 \<rparr>) = initial_state\<lparr> fuelMassInTender := - 1 \<rparr>) \<and>
   (\<not> fuelMassInTender initial_state < 0 \<and>
    \<not> fuelMassInFireChamber initial_state > MAX_FUEL_MASS_IN_FIRE_CHAMBER \<and>
    Fireman initial_state =
      \<lparr> distance = 0, fuelMassBurning = 0, fuelMassInTender = 12699,
        fuelMassInFireChamber = 1, locomotiveOwnMass = 500000, pressure = 0,
        speed = 0, time = 0 \<rparr>)"
  using Fireman_transfer [of "initial_state\<lparr> fuelMassInTender := - 1 \<rparr>"]
    Fireman_transfer [of initial_state]
  by (simp add: initial_state_def INITIAL_FUEL_MASS_IN_TENDER_def LOCOMOTIVE_OWN_MASS_def
      MAX_FUEL_MASS_IN_FIRE_CHAMBER_def FUEL_ADD_AMT_def)

subsection \<open>The Combustion/Pressure stage\<close>

text \<open>
  C6. With \<open>b\<close> the burning mass after the first step (raised to
  \<open>min fireChamberMass (burningMass + FUEL_ADD_AMT)\<close> if it was below the fire-chamber mass),
  the Fire Chamber returns the pressure \<open>PRESSURE_MULTIPLIER * b\<close>, the burning mass and the
  fire-chamber mass each lowered by \<open>FUEL_BURN_AMT\<close> with a floor at zero, and every other
  field as it was. The pressure is that of \<open>b\<close>, taken before the burn-off: it differs
  from \<open>PRESSURE_MULTIPLIER\<close> times the returned burning mass whenever \<open>b\<close> is not zero.
\<close>

theorem FireChamber_order:
  "(let b = (if fuelMassBurning s < fuelMassInFireChamber s
             then min (fuelMassInFireChamber s) (fuelMassBurning s + FUEL_ADD_AMT)
             else fuelMassBurning s)
    in FireChamber s =
         \<lparr> distance = distance s,
           fuelMassBurning = max 0 (b - FUEL_BURN_AMT),
           fuelMassInTender = fuelMassInTender s,
           fuelMassInFireChamber = max 0 (fuelMassInFireChamber s - FUEL_BURN_AMT),
           locomotiveOwnMass = locomotiveOwnMass s,
           pressure = PRESSURE_MULTIPLIER * b,
           speed = speed s, time = time s \<rparr> \<and>
       (b \<noteq> 0 \<longrightarrow>
          pressure (FireChamber s) \<noteq> PRESSURE_MULTIPLIER * fuelMassBurning (FireChamber s)))"
  apply (simp add: FireChamber_def Let_def add.commute)
  apply (simp add: PRESSURE_MULTIPLIER_def FUEL_BURN_AMT_def max_def)
  done

theorem FireChamber_order_witness:
  "FireChamber (Fireman initial_state) =
     \<lparr> distance = 0, fuelMassBurning = 9 / 10, fuelMassInTender = 12699,
       fuelMassInFireChamber = 9 / 10, locomotiveOwnMass = 500000, pressure = 2,
       speed = 0, time = 0 \<rparr> \<and>
   pressure (FireChamber (Fireman initial_state)) \<noteq>
     PRESSURE_MULTIPLIER * fuelMassBurning (FireChamber (Fireman initial_state))"
  using FireChamber_order [of "Fireman initial_state"]
  by (simp add: Fireman_def initial_state_def INITIAL_FUEL_MASS_IN_TENDER_def
      LOCOMOTIVE_OWN_MASS_def MAX_FUEL_MASS_IN_FIRE_CHAMBER_def FUEL_ADD_AMT_def
      FUEL_BURN_AMT_def PRESSURE_MULTIPLIER_def Let_def)

subsection \<open>Rounding\<close>

lemma rounding_mono: "rounding r \<Longrightarrow> x \<le> y \<Longrightarrow> r x \<le> r y"
  by (simp add: rounding_def)

lemma rounding_idem: "rounding r \<Longrightarrow> r (r x) = r x"
  by (simp add: rounding_def)

lemma rounding_consts:
  "rounding r \<Longrightarrow> r 0 = 0" "rounding r \<Longrightarrow> r 1 = 1" "rounding r \<Longrightarrow> r (- 1) = - 1"
  by (simp_all add: rounding_def)

lemma rounding_nonneg: "rounding r \<Longrightarrow> 0 \<le> x \<Longrightarrow> 0 \<le> r x"
  using rounding_mono [of r 0 x] by (simp add: rounding_consts)

lemma rounding_id: "rounding (\<lambda>x. x)"
  by (simp add: rounding_def)



lemma fl_exact:
  "initial_state_fl (\<lambda>x. x) = initial_state"
  "Fireman_fl (\<lambda>x. x) = Fireman"
  "FireChamber_fl (\<lambda>x. x) = FireChamber"
  "Movement_fl (\<lambda>x. x) = Movement"
  "processes_fl (\<lambda>x. x) = processes"
  "advance_fl (\<lambda>x. x) = advance"
proof -
  show 1: "Fireman_fl (\<lambda>x. x) = Fireman"
    by (rule ext) (simp add: Fireman_fl_def Fireman_def)
  show 2: "FireChamber_fl (\<lambda>x. x) = FireChamber"
    by (rule ext) (simp add: FireChamber_fl_def FireChamber_def)
  show 3: "Movement_fl (\<lambda>x. x) = Movement"
    by (rule ext) (simp add: Movement_fl_def Movement_def)
  show 4: "processes_fl (\<lambda>x. x) = processes"
    by (simp add: processes_fl_def processes_def 1 2 3)
  show "advance_fl (\<lambda>x. x) = advance"
    by (rule ext) (simp add: advance_fl_def advance_def 4)
  show "initial_state_fl (\<lambda>x. x) = initial_state"
    by (simp add: initial_state_fl_def initial_state_def)
qed

lemma advance_fl_eq: "advance_fl r s = Movement_fl r (FireChamber_fl r (Fireman_fl r s))"
  by (simp add: advance_fl_def processes_fl_def)

lemma run_fl_0: "run_fl r 0 = initial_state_fl r"
  by (simp add: run_fl_def)

lemma run_fl_Suc: "run_fl r (Suc n) = advance_fl r (run_fl r n)"
  by (simp add: run_fl_def)


lemma run_fl_exact: "run_fl (\<lambda>x. x) n = (advance ^^ n) initial_state"
  by (simp add: run_fl_def fl_exact)

lemma Movement_fl_fields [simp]:
  "fuelMassBurning (Movement_fl r s) = fuelMassBurning s"
  "fuelMassInFireChamber (Movement_fl r s) = fuelMassInFireChamber s"
  "fuelMassInTender (Movement_fl r s) = fuelMassInTender s"
  "locomotiveOwnMass (Movement_fl r s) = locomotiveOwnMass s"
  "pressure (Movement_fl r s) = pressure s"
  by (simp_all add: Movement_fl_def Let_def)

lemma Fireman_fl_fields [simp]:
  "fuelMassBurning (Fireman_fl r s) = fuelMassBurning s"
  "locomotiveOwnMass (Fireman_fl r s) = locomotiveOwnMass s"
  "pressure (Fireman_fl r s) = pressure s"
  by (simp_all add: Fireman_fl_def)

lemma FireChamber_fl_fields [simp]:
  "fuelMassInTender (FireChamber_fl r s) = fuelMassInTender s"
  "locomotiveOwnMass (FireChamber_fl r s) = locomotiveOwnMass s"
  by (simp_all add: FireChamber_fl_def Let_def)

subsection \<open>Burning mass, fire-chamber mass and pressure along a run\<close>

lemma Fireman_preserves:
  "0 \<le> fuelMassBurning s \<and> fuelMassBurning s \<le> fuelMassInFireChamber s \<Longrightarrow>
   0 \<le> fuelMassBurning (Fireman s) \<and> fuelMassBurning (Fireman s) \<le> fuelMassInFireChamber (Fireman s)"
  by (simp add: Fireman_def FUEL_ADD_AMT_def)

lemma FireChamber_preserves:
  "0 \<le> fuelMassBurning s \<and> fuelMassBurning s \<le> fuelMassInFireChamber s \<Longrightarrow>
   0 \<le> fuelMassBurning (FireChamber s) \<and>
   fuelMassBurning (FireChamber s) \<le> fuelMassInFireChamber (FireChamber s)"
  by (auto simp add: FireChamber_def Let_def FUEL_ADD_AMT_def)

lemma FireChamber_pressure_nonneg:
  "0 \<le> fuelMassBurning s \<and> fuelMassBurning s \<le> fuelMassInFireChamber s \<Longrightarrow>
   0 \<le> pressure (FireChamber s)"
  by (auto simp add: FireChamber_def Let_def FUEL_ADD_AMT_def PRESSURE_MULTIPLIER_def)

lemma stage_preserves:
  assumes "f \<in> set processes"
    and "0 \<le> fuelMassBurning s" "fuelMassBurning s \<le> fuelMassInFireChamber s" "0 \<le> pressure s"
  shows "0 \<le> fuelMassBurning (f s) \<and> fuelMassBurning (f s) \<le> fuelMassInFireChamber (f s) \<and>
         0 \<le> pressure (f s)"
proof -
  from assms(1) consider "f = Fireman" | "f = FireChamber" | "f = Movement"
    by (auto simp add: processes_def)
  then show ?thesis
  proof cases
    case 1
    with assms Fireman_preserves [of s] show ?thesis by simp
  next
    case 2
    with assms FireChamber_preserves [of s] FireChamber_pressure_nonneg [of s]
    show ?thesis by simp
  next
    case 3
    with assms show ?thesis by simp
  qed
qed

text \<open>
  With rounding, the Fireman keeps the burning mass below the fire-chamber mass when the
  burning mass is a value of the rounding, which it is after every Fire Chamber.
\<close>

lemma Fireman_fl_preserves:
  assumes r: "rounding r"
    and s: "0 \<le> fuelMassBurning s" "fuelMassBurning s \<le> fuelMassInFireChamber s"
      "r (fuelMassBurning s) = fuelMassBurning s"
  shows "fuelMassBurning (Fireman_fl r s) \<le> fuelMassInFireChamber (Fireman_fl r s)"
proof (cases "fuelMassInTender s < r 0 \<or> fuelMassInFireChamber s > r MAX_FUEL_MASS_IN_FIRE_CHAMBER")
  case True
  with s show ?thesis by (simp add: Fireman_fl_def)
next
  case False
  have "fuelMassBurning s \<le> fuelMassInFireChamber s + r FUEL_ADD_AMT"
    using s(2) r by (simp add: FUEL_ADD_AMT_def rounding_consts)
  then have "r (fuelMassBurning s) \<le> r (fuelMassInFireChamber s + r FUEL_ADD_AMT)"
    by (rule rounding_mono [OF r])
  with False s(3) show ?thesis by (simp add: Fireman_fl_def)
qed

lemma FireChamber_fl_burning:
  "fuelMassBurning (FireChamber_fl r s) =
     max (r 0) (r ((if fuelMassBurning s < fuelMassInFireChamber s
                    then min (fuelMassInFireChamber s) (r (r FUEL_ADD_AMT + fuelMassBurning s))
                    else fuelMassBurning s) - r FUEL_BURN_AMT))"
  by (simp add: FireChamber_fl_def Let_def)

lemma FireChamber_fl_chamber:
  "fuelMassInFireChamber (FireChamber_fl r s) =
     max (r 0) (r (fuelMassInFireChamber s - r FUEL_BURN_AMT))"
  by (simp add: FireChamber_fl_def Let_def)

lemma FireChamber_fl_pressure:
  "pressure (FireChamber_fl r s) =
     r (r PRESSURE_MULTIPLIER *
        (if fuelMassBurning s < fuelMassInFireChamber s
         then min (fuelMassInFireChamber s) (r (r FUEL_ADD_AMT + fuelMassBurning s))
         else fuelMassBurning s))"
  by (simp add: FireChamber_fl_def Let_def)

lemma FireChamber_fl_preserves:
  assumes r: "rounding r"
    and s: "0 \<le> fuelMassBurning s" "fuelMassBurning s \<le> fuelMassInFireChamber s"
  shows "0 \<le> fuelMassBurning (FireChamber_fl r s) \<and>
         fuelMassBurning (FireChamber_fl r s) \<le> fuelMassInFireChamber (FireChamber_fl r s) \<and>
         0 \<le> pressure (FireChamber_fl r s) \<and>
         r (fuelMassBurning (FireChamber_fl r s)) = fuelMassBurning (FireChamber_fl r s)"
proof -
  define b where "b = (if fuelMassBurning s < fuelMassInFireChamber s
      then min (fuelMassInFireChamber s) (r (r FUEL_ADD_AMT + fuelMassBurning s))
      else fuelMassBurning s)"
  have "0 \<le> r FUEL_ADD_AMT + fuelMassBurning s"
    using s(1) by (simp add: FUEL_ADD_AMT_def rounding_consts [OF r])
  then have "0 \<le> r (r FUEL_ADD_AMT + fuelMassBurning s)"
    by (rule rounding_nonneg [OF r])
  with s have b: "0 \<le> b" "b \<le> fuelMassInFireChamber s"
    by (simp_all add: b_def)
  have 1: "fuelMassBurning (FireChamber_fl r s) = max 0 (r (b - r FUEL_BURN_AMT))"
    by (simp add: FireChamber_fl_burning b_def rounding_consts [OF r])
  have 2: "fuelMassInFireChamber (FireChamber_fl r s) =
      max 0 (r (fuelMassInFireChamber s - r FUEL_BURN_AMT))"
    by (simp add: FireChamber_fl_chamber rounding_consts [OF r])
  have 3: "pressure (FireChamber_fl r s) = r (r PRESSURE_MULTIPLIER * b)"
    by (simp add: FireChamber_fl_pressure b_def)
  have "b - r FUEL_BURN_AMT \<le> fuelMassInFireChamber s - r FUEL_BURN_AMT"
    using b(2) by simp
  then have "r (b - r FUEL_BURN_AMT) \<le> r (fuelMassInFireChamber s - r FUEL_BURN_AMT)"
    by (rule rounding_mono [OF r])
  then have le: "max 0 (r (b - r FUEL_BURN_AMT)) \<le>
      max 0 (r (fuelMassInFireChamber s - r FUEL_BURN_AMT))"
    by simp
  have "0 \<le> r PRESSURE_MULTIPLIER"
    by (rule rounding_nonneg [OF r]) (simp add: PRESSURE_MULTIPLIER_def)
  with b(1) have "0 \<le> r PRESSURE_MULTIPLIER * b" by simp
  then have p: "0 \<le> r (r PRESSURE_MULTIPLIER * b)"
    by (rule rounding_nonneg [OF r])
  have v: "r (max 0 (r (b - r FUEL_BURN_AMT))) = max 0 (r (b - r FUEL_BURN_AMT))"
    by (simp add: max_def rounding_consts [OF r] rounding_idem [OF r])
  from le p v show ?thesis by (simp add: 1 2 3)
qed

lemma stage_fl_preserves:
  assumes r: "rounding r" and f: "f \<in> set (processes_fl r)"
    and s: "0 \<le> fuelMassBurning s" "fuelMassBurning s \<le> fuelMassInFireChamber s"
      "0 \<le> pressure s" "r (fuelMassBurning s) = fuelMassBurning s"
  shows "0 \<le> fuelMassBurning (f s) \<and> fuelMassBurning (f s) \<le> fuelMassInFireChamber (f s) \<and>
         0 \<le> pressure (f s) \<and> r (fuelMassBurning (f s)) = fuelMassBurning (f s)"
proof -
  from f consider "f = Fireman_fl r" | "f = FireChamber_fl r" | "f = Movement_fl r"
    by (auto simp add: processes_fl_def)
  then show ?thesis
  proof cases
    case 1
    with s Fireman_fl_preserves [OF r s(1,2,4)] show ?thesis by simp
  next
    case 2
    with FireChamber_fl_preserves [OF r s(1,2)] show ?thesis by simp
  next
    case 3
    with s show ?thesis by simp
  qed
qed

lemma reachable_fuel:
  assumes r: "rounding r"
  shows "0 \<le> fuelMassBurning (run_fl r n) \<and>
         fuelMassBurning (run_fl r n) \<le> fuelMassInFireChamber (run_fl r n) \<and>
         0 \<le> pressure (run_fl r n) \<and>
         r (fuelMassBurning (run_fl r n)) = fuelMassBurning (run_fl r n)"
proof (induction n)
  case 0
  show ?case by (simp add: run_fl_0 initial_state_fl_def rounding_consts [OF r])
next
  case (Suc n)
  let ?f = "Fireman_fl r (run_fl r n)"
  from Suc Fireman_fl_preserves [OF r, of "run_fl r n"]
  have f: "0 \<le> fuelMassBurning ?f" "fuelMassBurning ?f \<le> fuelMassInFireChamber ?f"
    by simp_all
  show ?case
    using FireChamber_fl_preserves [OF r f] by (simp add: run_fl_Suc advance_fl_eq)
qed

text \<open>
  C9. On every state of a run from the initial state, in floating point arithmetic with
  any rounding, the burning mass lies between zero and the fire-chamber mass and the
  pressure is not negative. The pressure after an iteration is \<open>PRESSURE_MULTIPLIER\<close>
  times the burning mass that the Fire Chamber holds when it assigns the pressure, before
  the burn-off; it is not \<open>PRESSURE_MULTIPLIER\<close> times the burning mass of the state,
  as the first iteration shows. Each of the three stages keeps the bounds: in exact
  arithmetic on every state, with rounding on every state whose burning mass is a value of
  the rounding.
\<close>

theorem burning_within_fire_chamber:
  "rounding r \<longrightarrow>
   0 \<le> fuelMassBurning (run_fl r n) \<and>
   fuelMassBurning (run_fl r n) \<le> fuelMassInFireChamber (run_fl r n) \<and>
   0 \<le> pressure (run_fl r n) \<and>
   pressure (run_fl r (Suc n)) =
     r (r PRESSURE_MULTIPLIER *
        (if fuelMassBurning (Fireman_fl r (run_fl r n)) <
            fuelMassInFireChamber (Fireman_fl r (run_fl r n))
         then min (fuelMassInFireChamber (Fireman_fl r (run_fl r n)))
                (r (r FUEL_ADD_AMT + fuelMassBurning (Fireman_fl r (run_fl r n))))
         else fuelMassBurning (Fireman_fl r (run_fl r n)))) \<and>
   (\<forall>f \<in> set (processes_fl r). \<forall>s.
      0 \<le> fuelMassBurning s \<and> fuelMassBurning s \<le> fuelMassInFireChamber s \<and> 0 \<le> pressure s \<and>
      r (fuelMassBurning s) = fuelMassBurning s \<longrightarrow>
      0 \<le> fuelMassBurning (f s) \<and> fuelMassBurning (f s) \<le> fuelMassInFireChamber (f s) \<and>
      0 \<le> pressure (f s) \<and> r (fuelMassBurning (f s)) = fuelMassBurning (f s)) \<and>
   (\<forall>f \<in> set processes. \<forall>s.
      0 \<le> fuelMassBurning s \<and> fuelMassBurning s \<le> fuelMassInFireChamber s \<and> 0 \<le> pressure s \<longrightarrow>
      0 \<le> fuelMassBurning (f s) \<and> fuelMassBurning (f s) \<le> fuelMassInFireChamber (f s) \<and>
      0 \<le> pressure (f s))"
proof
  assume r: "rounding r"
  have 1: "0 \<le> fuelMassBurning (run_fl r n)"
    "fuelMassBurning (run_fl r n) \<le> fuelMassInFireChamber (run_fl r n)"
    "0 \<le> pressure (run_fl r n)"
    using reachable_fuel [OF r, of n] by simp_all
  have 2: "pressure (run_fl r (Suc n)) =
     r (r PRESSURE_MULTIPLIER *
        (if fuelMassBurning (Fireman_fl r (run_fl r n)) <
            fuelMassInFireChamber (Fireman_fl r (run_fl r n))
         then min (fuelMassInFireChamber (Fireman_fl r (run_fl r n)))
                (r (r FUEL_ADD_AMT + fuelMassBurning (Fireman_fl r (run_fl r n))))
         else fuelMassBurning (Fireman_fl r (run_fl r n))))"
    by (simp only: run_fl_Suc advance_fl_eq Movement_fl_fields FireChamber_fl_pressure)
  have 3: "\<forall>f \<in> set (processes_fl r). \<forall>s.
      0 \<le> fuelMassBurning s \<and> fuelMassBurning s \<le> fuelMassInFireChamber s \<and> 0 \<le> pressure s \<and>
      r (fuelMassBurning s) = fuelMassBurning s \<longrightarrow>
      0 \<le> fuelMassBurning (f s) \<and> fuelMassBurning (f s) \<le> fuelMassInFireChamber (f s) \<and>
      0 \<le> pressure (f s) \<and> r (fuelMassBurning (f s)) = fuelMassBurning (f s)"
    using stage_fl_preserves [OF r] by blast
  have 4: "\<forall>f \<in> set processes. \<forall>s.
      0 \<le> fuelMassBurning s \<and> fuelMassBurning s \<le> fuelMassInFireChamber s \<and> 0 \<le> pressure s \<longrightarrow>
      0 \<le> fuelMassBurning (f s) \<and> fuelMassBurning (f s) \<le> fuelMassInFireChamber (f s) \<and>
      0 \<le> pressure (f s)"
    using stage_preserves by blast
  show "0 \<le> fuelMassBurning (run_fl r n) \<and>
   fuelMassBurning (run_fl r n) \<le> fuelMassInFireChamber (run_fl r n) \<and>
   0 \<le> pressure (run_fl r n) \<and>
   pressure (run_fl r (Suc n)) =
     r (r PRESSURE_MULTIPLIER *
        (if fuelMassBurning (Fireman_fl r (run_fl r n)) <
            fuelMassInFireChamber (Fireman_fl r (run_fl r n))
         then min (fuelMassInFireChamber (Fireman_fl r (run_fl r n)))
                (r (r FUEL_ADD_AMT + fuelMassBurning (Fireman_fl r (run_fl r n))))
         else fuelMassBurning (Fireman_fl r (run_fl r n)))) \<and>
   (\<forall>f \<in> set (processes_fl r). \<forall>s.
      0 \<le> fuelMassBurning s \<and> fuelMassBurning s \<le> fuelMassInFireChamber s \<and> 0 \<le> pressure s \<and>
      r (fuelMassBurning s) = fuelMassBurning s \<longrightarrow>
      0 \<le> fuelMassBurning (f s) \<and> fuelMassBurning (f s) \<le> fuelMassInFireChamber (f s) \<and>
      0 \<le> pressure (f s) \<and> r (fuelMassBurning (f s)) = fuelMassBurning (f s)) \<and>
   (\<forall>f \<in> set processes. \<forall>s.
      0 \<le> fuelMassBurning s \<and> fuelMassBurning s \<le> fuelMassInFireChamber s \<and> 0 \<le> pressure s \<longrightarrow>
      0 \<le> fuelMassBurning (f s) \<and> fuelMassBurning (f s) \<le> fuelMassInFireChamber (f s) \<and>
      0 \<le> pressure (f s))"
    by (intro conjI) (rule 1(1), rule 1(2), rule 1(3), rule 2, rule 3, rule 4)
qed

theorem burning_within_fire_chamber_witness:
  "rounding (\<lambda>x. x) \<and>
   fuelMassBurning (run_fl (\<lambda>x. x) (Suc 0)) = 9 / 10 \<and>
   fuelMassInFireChamber (run_fl (\<lambda>x. x) (Suc 0)) = 9 / 10 \<and>
   pressure (run_fl (\<lambda>x. x) (Suc 0)) = 2 \<and>
   0 \<le> fuelMassBurning (run_fl (\<lambda>x. x) (Suc 0)) \<and>
   fuelMassBurning (run_fl (\<lambda>x. x) (Suc 0)) \<le> fuelMassInFireChamber (run_fl (\<lambda>x. x) (Suc 0)) \<and>
   0 \<le> pressure (run_fl (\<lambda>x. x) (Suc 0)) \<and>
   FireChamber_fl (\<lambda>x. x) \<in> set (processes_fl (\<lambda>x. x)) \<and>
   0 \<le> fuelMassBurning (FireChamber_fl (\<lambda>x. x) (run_fl (\<lambda>x. x) (Suc 0))) \<and>
   fuelMassBurning (FireChamber_fl (\<lambda>x. x) (run_fl (\<lambda>x. x) (Suc 0))) \<le>
     fuelMassInFireChamber (FireChamber_fl (\<lambda>x. x) (run_fl (\<lambda>x. x) (Suc 0))) \<and>
   0 \<le> pressure (FireChamber_fl (\<lambda>x. x) (run_fl (\<lambda>x. x) (Suc 0))) \<and>
   FireChamber \<in> set processes \<and>
   0 \<le> fuelMassBurning (FireChamber (run_fl (\<lambda>x. x) (Suc 0))) \<and>
   fuelMassBurning (FireChamber (run_fl (\<lambda>x. x) (Suc 0))) \<le>
     fuelMassInFireChamber (FireChamber (run_fl (\<lambda>x. x) (Suc 0))) \<and>
   0 \<le> pressure (FireChamber (run_fl (\<lambda>x. x) (Suc 0)))"
proof -
  let ?r = "\<lambda>x::real. x"
  let ?s = "run_fl ?r (Suc 0)"
  note T = burning_within_fire_chamber [of ?r "Suc 0", THEN mp, OF rounding_id]
  have v: "fuelMassBurning ?s = 9 / 10" "fuelMassInFireChamber ?s = 9 / 10" "pressure ?s = 2"
    by (simp_all add: run_fl_def fl_exact advance_eq Movement_def FireChamber_def Fireman_def
        initial_state_def Let_def INITIAL_FUEL_MASS_IN_TENDER_def MAX_FUEL_MASS_IN_FIRE_CHAMBER_def
        FUEL_ADD_AMT_def FUEL_BURN_AMT_def PRESSURE_MULTIPLIER_def)
  have b: "0 \<le> fuelMassBurning ?s" "fuelMassBurning ?s \<le> fuelMassInFireChamber ?s"
    "0 \<le> pressure ?s"
    using T by simp_all
  have pf: "FireChamber_fl ?r \<in> set (processes_fl ?r)"
    by (simp add: processes_fl_def)
  have p: "FireChamber \<in> set processes"
    by (simp add: processes_def)
  have h: "0 \<le> fuelMassBurning ?s \<and> fuelMassBurning ?s \<le> fuelMassInFireChamber ?s \<and>
      0 \<le> pressure ?s \<and> ?r (fuelMassBurning ?s) = fuelMassBurning ?s"
    using b by simp
  have h': "0 \<le> fuelMassBurning ?s \<and> fuelMassBurning ?s \<le> fuelMassInFireChamber ?s \<and>
      0 \<le> pressure ?s"
    using b by simp
  note F = T [THEN conjunct2, THEN conjunct2, THEN conjunct2, THEN conjunct2, THEN conjunct1,
      THEN bspec, OF pf, THEN spec, of ?s, THEN mp, OF h]
  note E = T [THEN conjunct2, THEN conjunct2, THEN conjunct2, THEN conjunct2, THEN conjunct2,
      THEN bspec, OF p, THEN spec, of ?s, THEN mp, OF h']
  show ?thesis
    by (intro conjI) (rule rounding_id, rule v(1), rule v(2), rule v(3), rule b(1), rule b(2),
        rule b(3), rule pf, rule F [THEN conjunct1], rule F [THEN conjunct2, THEN conjunct1],
        rule F [THEN conjunct2, THEN conjunct2, THEN conjunct1], rule p, rule E [THEN conjunct1],
        rule E [THEN conjunct2, THEN conjunct1], rule E [THEN conjunct2, THEN conjunct2])
qed

text \<open>
  After the first iteration the pressure is 2 and the burning mass is 9/10: the pressure
  was assigned before the burn-off took 1/10 from the burning mass.
\<close>

theorem pressure_not_proportional:
  "run_fl (\<lambda>x. x) (Suc 0) = advance initial_state \<and>
   pressure (advance initial_state) = 2 \<and>
   fuelMassBurning (advance initial_state) = 9 / 10 \<and>
   pressure (advance initial_state) \<noteq>
     PRESSURE_MULTIPLIER * fuelMassBurning (advance initial_state)"
  by (simp add: run_fl_def fl_exact advance_eq Movement_def FireChamber_def Fireman_def
      initial_state_def Let_def INITIAL_FUEL_MASS_IN_TENDER_def MAX_FUEL_MASS_IN_FIRE_CHAMBER_def
      FUEL_ADD_AMT_def FUEL_BURN_AMT_def PRESSURE_MULTIPLIER_def)

subsection \<open>The tender mass along a run\<close>



lemma mass_positive:
  "- FUEL_ADD_AMT \<le> fuelMassInTender s \<Longrightarrow> 0 \<le> fuelMassInFireChamber s \<Longrightarrow>
   locomotiveOwnMass s = LOCOMOTIVE_OWN_MASS \<Longrightarrow>
   0 < locomotiveOwnMass s + fuelMassInTender s + fuelMassInFireChamber s"
  by (simp add: FUEL_ADD_AMT_def LOCOMOTIVE_OWN_MASS_def)










section \<open>Sampling: properties\<close>

text \<open>
  \<open>model.history\<close> is written by \<open>model.sendDataToPredix\<close> only, with the value of
  \<open>state.time\<close> at the call, and \<open>state.time\<close> grows with every iteration: no entry carries
  a time of last send that is later than the current time.
\<close>

lemma sendDataToPredix_state [simp]: "state (sendDataToPredix k d sendData m) = state m"
  by (cases "history m k") (simp_all add: sendDataToPredix_def Let_def)

lemma sendDataToPredix_past:
  assumes "\<forall>k' h. history m k' = Some h \<longrightarrow> prevTimeSent h \<le> time (state m)"
  shows "\<forall>k' h. history (sendDataToPredix k d sendData m) k' = Some h \<longrightarrow>
           prevTimeSent h \<le> time (state (sendDataToPredix k d sendData m))"
  using assms
  by (cases "history m k") (auto simp add: sendDataToPredix_def Let_def split: if_splits)

lemma advance_time: "time (advance s) = time s + DT"
  by (simp add: advance_def processes_def Movement_def FireChamber_def Fireman_def Let_def)

lemma advance_past:
  assumes "\<forall>k' h. history m k' = Some h \<longrightarrow> prevTimeSent h \<le> time (state m)"
  shows "\<forall>k' h. history m k' = Some h \<longrightarrow> prevTimeSent h \<le> time (advance (state m))"
proof (intro allI impI)
  fix k' h
  assume "history m k' = Some h"
  with assms have "prevTimeSent h \<le> time (state m)" by blast
  then show "prevTimeSent h \<le> time (advance (state m))"
    by (simp add: advance_time DT_def)
qed

lemma toTimeSeries_past:
  "\<forall>k h. history m k = Some h \<longrightarrow> prevTimeSent h \<le> time (state m) \<Longrightarrow>
   \<forall>k h. history (toTimeSeries newId st m) k = Some h \<longrightarrow>
     prevTimeSent h \<le> time (state (toTimeSeries newId st m))"
  unfolding toTimeSeries_def by (rule sendDataToPredix_past)

lemma toAsset_past:
  "\<forall>k h. history m k = Some h \<longrightarrow> prevTimeSent h \<le> time (state m) \<Longrightarrow>
   \<forall>k h. history (toAsset newId k' v message m) k = Some h \<longrightarrow>
     prevTimeSent h \<le> time (state (toAsset newId k' v message m))"
  unfolding toAsset_def by (rule sendDataToPredix_past)

lemma onStateChange_past:
  assumes "\<forall>k h. history m k = Some h \<longrightarrow> prevTimeSent h \<le> time (state m)"
  shows "\<forall>k h. history (onStateChange newIds m) k = Some h \<longrightarrow>
           prevTimeSent h \<le> time (state (onStateChange newIds m))"
proof -
  let ?B = "\<lambda>m::predix simulator.
      \<forall>k h. history m k = Some h \<longrightarrow> prevTimeSent h \<le> time (state m)"
  let ?st = "state m"
  let ?m1 = "toTimeSeries (newIds ''timeSeries'') ?st m"
  let ?m2 = "if pressure ?st > MAX_ALLOWED_PRESSURE
               then toAsset (newIds ''pressure'') ''pressure'' (pressure ?st)
                      ''Maximum pressure has been exceeded!'' ?m1
               else ?m1"
  let ?m3 = "if speed ?st > MAX_ALLOWED_SPEED
               then toAsset (newIds ''speed'') ''speed'' (speed ?st)
                      ''Maximum speed has been exceeded!'' ?m2
               else ?m2"
  let ?m4 = "if fuelMassInTender ?st < MIN_ALLOWED_FUEL_MASS_IN_TENDER
               then toAsset (newIds ''fuelMassInTender'') ''fuelMassInTender'' (fuelMassInTender ?st)
                      ''Fuel mass in tender is too low!'' ?m3
               else ?m3"
  have 1: "?B ?m1" using assms by (rule toTimeSeries_past)
  have 2: "?B ?m2" using 1 toAsset_past [OF 1] by presburger
  have 3: "?B ?m3" using 2 toAsset_past [OF 2] by presburger
  have 4: "?B ?m4" using 3 toAsset_past [OF 3] by presburger
  have "onStateChange newIds m = ?m4"
    by (simp add: onStateChange_def Let_def)
  with 4 show ?thesis by simp
qed

lemma runSimulation_past:
  assumes "\<forall>k h. history m k = Some h \<longrightarrow> prevTimeSent h \<le> time (state m)"
  shows "\<forall>k h. history (runSimulation tok newIds m) k = Some h \<longrightarrow>
           prevTimeSent h \<le> time (state (runSimulation tok newIds m))"
proof -
  let ?m0 = "if numIterations m = 0
               then m\<lparr> services := \<lparr> timeSeriesService = new_TimeSeriesService tok,
                                     assetService = new_AssetService tok \<rparr> \<rparr>
               else m"
  let ?m1 = "?m0\<lparr> numIterations := numIterations ?m0 + 1 \<rparr>"
  let ?m2 = "?m1\<lparr> state := advance (state ?m1) \<rparr>"
  have h0: "history ?m0 = history m" "state ?m0 = state m" by simp_all
  have "\<forall>k h. history ?m2 k = Some h \<longrightarrow> prevTimeSent h \<le> time (state ?m2)"
    using advance_past [OF assms] by simp
  then have "\<forall>k h. history (onStateChange newIds ?m2) k = Some h \<longrightarrow>
      prevTimeSent h \<le> time (state (onStateChange newIds ?m2))"
    by (rule onStateChange_past)
  moreover have "runSimulation tok newIds m =
      (if numIterations ?m0 \<ge> NUM_ITERATIONS then ?m0 else onStateChange newIds ?m2)"
    by (simp add: runSimulation_def Let_def)
  ultimately show ?thesis using assms h0 by presburger
qed

lemma iterations_past:
  "\<forall>k h. history m k = Some h \<longrightarrow> prevTimeSent h \<le> time (state m) \<Longrightarrow>
   \<forall>k h. history (iterations envs m) k = Some h \<longrightarrow>
     prevTimeSent h \<le> time (state (iterations envs m))"
proof (induction envs arbitrary: m)
  case Nil
  then show ?case by simp
next
  case (Cons e envs)
  obtain tok newIds where e: "e = (tok, newIds)" by (cases e)
  show ?case
    using Cons.IH [OF runSimulation_past [OF Cons.prems, of tok newIds]] e by simp
qed

lemma sendDataToPredix_eligible:
  assumes "\<forall>h. history m k = Some h \<longrightarrow> prevTimeSent h \<le> time (state m)"
  shows
    "(let sends = (case history m k of None \<Rightarrow> 0 | Some h \<Rightarrow> numSends h);
          eligible =
            (sends < MAX_NUM_SENDS_PER_KEY \<and>
             (case history m k of
                None \<Rightarrow> True
              | Some h \<Rightarrow> time (state m) - prevTimeSent h + EPS \<ge> SEND_INTERVAL))
      in (eligible \<longrightarrow>
            sendDataToPredix k d sendData m =
              m\<lparr> services := sendData d (services m),
                 history := (history m)(k \<mapsto>
                   \<lparr> prevTimeSent = time (state m), numSends = sends + 1 \<rparr>) \<rparr>) \<and>
         (\<not> eligible \<longrightarrow> sendDataToPredix k d sendData m = m))"
proof (cases "history m k")
  case None
  then show ?thesis
    by (simp add: sendDataToPredix_def Let_def)
next
  case (Some h)
  with assms have "time (state m) - prevTimeSent h \<noteq> - 1" by simp
  with Some show ?thesis
    by (simp add: sendDataToPredix_def Let_def)
qed

text \<open>
  C1. On every history that the simulation can hold (no entry of the key lies after the
  current time) \<open>model.sendDataToPredix\<close> forwards the value (applies the sink's send
  function to it and writes the history) exactly when the sends so far for the key are
  below \<open>MAX_NUM_SENDS_PER_KEY\<close> and the key has no history entry or the time since the
  last send plus \<open>EPS\<close> is at least \<open>SEND_INTERVAL\<close>. When it forwards, the entry of the key
  becomes the current time with one more send (one on the first send); otherwise nothing
  changes. The histories after any number of calls of \<open>runSimulation\<close> are of this kind,
  and so are those between the calls of \<open>model.sendDataToPredix\<close> within an iteration:
  the property is kept by \<open>model.sendDataToPredix\<close> and by the step of the state.
\<close>

theorem sendDataToPredix_gate:
  "((\<forall>h. history m k = Some h \<longrightarrow> prevTimeSent h \<le> time (state m)) \<longrightarrow>
    (let sends = (case history m k of None \<Rightarrow> 0 | Some h \<Rightarrow> numSends h);
         eligible =
           (sends < MAX_NUM_SENDS_PER_KEY \<and>
            (case history m k of
               None \<Rightarrow> True
             | Some h \<Rightarrow> time (state m) - prevTimeSent h + EPS \<ge> SEND_INTERVAL))
     in (eligible \<longrightarrow>
           sendDataToPredix k d sendData m =
             m\<lparr> services := sendData d (services m),
                history := (history m)(k \<mapsto>
                  \<lparr> prevTimeSent = time (state m), numSends = sends + 1 \<rparr>) \<rparr>) \<and>
        (\<not> eligible \<longrightarrow> sendDataToPredix k d sendData m = m))) \<and>
   (\<forall>k' h. history (iterations envs initial_simulator) k' = Some h \<longrightarrow>
      prevTimeSent h \<le> time (state (iterations envs initial_simulator))) \<and>
   ((\<forall>k' h. history m k' = Some h \<longrightarrow> prevTimeSent h \<le> time (state m)) \<longrightarrow>
      (\<forall>k' h. history (sendDataToPredix k d sendData m) k' = Some h \<longrightarrow>
         prevTimeSent h \<le> time (state (sendDataToPredix k d sendData m))) \<and>
      (\<forall>k' h. history m k' = Some h \<longrightarrow> prevTimeSent h \<le> time (advance (state m))))"
proof (intro conjI impI)
  assume "\<forall>h. history m k = Some h \<longrightarrow> prevTimeSent h \<le> time (state m)"
  then show "let sends = (case history m k of None \<Rightarrow> 0 | Some h \<Rightarrow> numSends h);
         eligible =
           (sends < MAX_NUM_SENDS_PER_KEY \<and>
            (case history m k of
               None \<Rightarrow> True
             | Some h \<Rightarrow> time (state m) - prevTimeSent h + EPS \<ge> SEND_INTERVAL))
     in (eligible \<longrightarrow>
           sendDataToPredix k d sendData m =
             m\<lparr> services := sendData d (services m),
                history := (history m)(k \<mapsto>
                  \<lparr> prevTimeSent = time (state m), numSends = sends + 1 \<rparr>) \<rparr>) \<and>
        (\<not> eligible \<longrightarrow> sendDataToPredix k d sendData m = m)"
    by (rule sendDataToPredix_eligible)
next
  have "\<forall>k h. history initial_simulator k = Some h \<longrightarrow>
      prevTimeSent h \<le> time (state initial_simulator)"
    by (simp add: initial_simulator_def)
  then show "\<forall>k' h. history (iterations envs initial_simulator) k' = Some h \<longrightarrow>
      prevTimeSent h \<le> time (state (iterations envs initial_simulator))"
    by (rule iterations_past)
next
  assume "\<forall>k' h. history m k' = Some h \<longrightarrow> prevTimeSent h \<le> time (state m)"
  then show "\<forall>k' h. history (sendDataToPredix k d sendData m) k' = Some h \<longrightarrow>
         prevTimeSent h \<le> time (state (sendDataToPredix k d sendData m))"
    by (rule sendDataToPredix_past)
next
  assume "\<forall>k' h. history m k' = Some h \<longrightarrow> prevTimeSent h \<le> time (state m)"
  then show "\<forall>k' h. history m k' = Some h \<longrightarrow> prevTimeSent h \<le> time (advance (state m))"
    by (rule advance_past)
qed

theorem sendDataToPredix_gate_witness:
  "sendDataToPredix ''speed'' ''a'' record_sent
     \<lparr> state = initial_state, history = Map.empty, numIterations = 0, services = [] \<rparr> =
     \<lparr> state = initial_state,
       history = [''speed'' \<mapsto> \<lparr> prevTimeSent = 0, numSends = 1 \<rparr>],
       numIterations = 0, services = [''a''] \<rparr> \<and>
   sendDataToPredix ''speed'' ''b'' record_sent
     \<lparr> state = initial_state\<lparr> time := 50 \<rparr>,
       history = [''speed'' \<mapsto> \<lparr> prevTimeSent = 0, numSends = 1 \<rparr>],
       numIterations = 500, services = [''a''] \<rparr> =
     \<lparr> state = initial_state\<lparr> time := 50 \<rparr>,
       history = [''speed'' \<mapsto> \<lparr> prevTimeSent = 0, numSends = 1 \<rparr>],
       numIterations = 500, services = [''a''] \<rparr> \<and>
   sendDataToPredix ''speed'' ''c'' record_sent
     \<lparr> state = initial_state\<lparr> time := 100 \<rparr>,
       history = [''speed'' \<mapsto> \<lparr> prevTimeSent = 0, numSends = 1 \<rparr>],
       numIterations = 1000, services = [''a''] \<rparr> =
     \<lparr> state = initial_state\<lparr> time := 100 \<rparr>,
       history = [''speed'' \<mapsto> \<lparr> prevTimeSent = 100, numSends = 2 \<rparr>],
       numIterations = 1000, services = [''a'', ''c''] \<rparr>"
proof -
  let ?m1 = "\<lparr> state = initial_state, history = Map.empty, numIterations = 0,
      services = [] :: string list \<rparr>"
  let ?m2 = "\<lparr> state = initial_state\<lparr> time := 50 \<rparr>,
      history = [''speed'' \<mapsto> \<lparr> prevTimeSent = 0, numSends = 1 \<rparr>],
      numIterations = 500, services = [''a''] \<rparr>"
  let ?m3 = "\<lparr> state = initial_state\<lparr> time := 100 \<rparr>,
      history = [''speed'' \<mapsto> \<lparr> prevTimeSent = 0, numSends = 1 \<rparr>],
      numIterations = 1000, services = [''a''] \<rparr>"
  have h1: "\<forall>h. history ?m1 ''speed'' = Some h \<longrightarrow> prevTimeSent h \<le> time (state ?m1)"
    by simp
  have h2: "\<forall>h. history ?m2 ''speed'' = Some h \<longrightarrow> prevTimeSent h \<le> time (state ?m2)"
    by simp
  have h3: "\<forall>h. history ?m3 ''speed'' = Some h \<longrightarrow> prevTimeSent h \<le> time (state ?m3)"
    by simp
  have 1: "sendDataToPredix ''speed'' ''a'' record_sent ?m1 =
      \<lparr> state = initial_state,
        history = [''speed'' \<mapsto> \<lparr> prevTimeSent = 0, numSends = 1 \<rparr>],
        numIterations = 0, services = [''a''] \<rparr>"
    using sendDataToPredix_gate [of ?m1 "''speed''" "''a''" record_sent, THEN conjunct1, THEN mp,
        OF h1]
    by (simp add: MAX_NUM_SENDS_PER_KEY_def initial_state_def record_sent_def)
  have 2: "sendDataToPredix ''speed'' ''b'' record_sent ?m2 = ?m2"
    using sendDataToPredix_gate [of ?m2 "''speed''" "''b''" record_sent, THEN conjunct1, THEN mp,
        OF h2]
    by (simp add: MAX_NUM_SENDS_PER_KEY_def SEND_INTERVAL_def EPS_def)
  have 3: "sendDataToPredix ''speed'' ''c'' record_sent ?m3 =
      \<lparr> state = initial_state\<lparr> time := 100 \<rparr>,
        history = [''speed'' \<mapsto> \<lparr> prevTimeSent = 100, numSends = 2 \<rparr>],
        numIterations = 1000, services = [''a'', ''c''] \<rparr>"
    using sendDataToPredix_gate [of ?m3 "''speed''" "''c''" record_sent, THEN conjunct1, THEN mp,
        OF h3]
    by (simp add: MAX_NUM_SENDS_PER_KEY_def SEND_INTERVAL_def EPS_def record_sent_def
        numeral_2_eq_2)
  show ?thesis
    by (intro conjI) (rule 1, rule 2, rule 3)
qed

text \<open>
  The condition on the history is needed: the code marks a first send by the time
  difference \<open>- 1\<close>, and an entry that lay one second after the current time would give the
  same difference and be forwarded. By the above no such entry arises.
\<close>

lemma sendDataToPredix_entry_ahead:
  "services
     (sendDataToPredix ''speed'' ''b'' record_sent
        \<lparr> state = initial_state\<lparr> time := 4 \<rparr>,
          history = [''speed'' \<mapsto> \<lparr> prevTimeSent = 5, numSends = 1 \<rparr>],
          numIterations = 50, services = [''a''] \<rparr>) = [''a'', ''b'']"
  by (simp add: sendDataToPredix_def Let_def MAX_NUM_SENDS_PER_KEY_def SEND_INTERVAL_def EPS_def
      initial_state_def record_sent_def)

subsection \<open>The number of sends of a key\<close>

lemma sendDataToPredix_numSends:
  assumes "\<forall>k h. history m k = Some h \<longrightarrow> numSends h \<le> MAX_NUM_SENDS_PER_KEY"
  shows "\<forall>k h. history (sendDataToPredix k' d sendData m) k = Some h \<longrightarrow>
           numSends h \<le> MAX_NUM_SENDS_PER_KEY"
  using assms
  by (cases "history m k'") (auto simp add: sendDataToPredix_def Let_def split: if_splits)

lemma sendDataToPredix_recorded:
  assumes "\<forall>k. count_list (services m) k = (case history m k of None \<Rightarrow> 0 | Some h \<Rightarrow> numSends h)"
  shows "\<forall>k. count_list (services (sendDataToPredix k' k' record_sent m)) k =
           (case history (sendDataToPredix k' k' record_sent m) k of
              None \<Rightarrow> 0 | Some h \<Rightarrow> numSends h)"
  using assms
  by (cases "history m k'") (auto simp add: sendDataToPredix_def Let_def record_sent_def)

lemma sampled_invariants:
  assumes "\<forall>k h. history m k = Some h \<longrightarrow> numSends h \<le> MAX_NUM_SENDS_PER_KEY"
    and "\<forall>k. count_list (services m) k = (case history m k of None \<Rightarrow> 0 | Some h \<Rightarrow> numSends h)"
  shows "(\<forall>k h. history (sampled calls m) k = Some h \<longrightarrow> numSends h \<le> MAX_NUM_SENDS_PER_KEY) \<and>
         (\<forall>k. count_list (services (sampled calls m)) k =
               (case history (sampled calls m) k of None \<Rightarrow> 0 | Some h \<Rightarrow> numSends h))"
  using assms
proof (induction calls arbitrary: m)
  case Nil
  then show ?case by simp
next
  case (Cons c calls)
  obtain k t where c: "c = (k, t)" by (cases c)
  let ?m = "m\<lparr> state := (state m)\<lparr> time := t \<rparr> \<rparr>"
  have a: "\<forall>k h. history ?m k = Some h \<longrightarrow> numSends h \<le> MAX_NUM_SENDS_PER_KEY"
    using Cons.prems(1) by simp
  have b: "\<forall>k. count_list (services ?m) k = (case history ?m k of None \<Rightarrow> 0 | Some h \<Rightarrow> numSends h)"
    using Cons.prems(2) by simp
  show ?case
    using Cons.IH [OF sendDataToPredix_numSends [OF a] sendDataToPredix_recorded [OF b]] c
    by simp
qed

lemma toTimeSeries_numSends:
  "\<forall>k h. history m k = Some h \<longrightarrow> numSends h \<le> MAX_NUM_SENDS_PER_KEY \<Longrightarrow>
   \<forall>k h. history (toTimeSeries newId st m) k = Some h \<longrightarrow> numSends h \<le> MAX_NUM_SENDS_PER_KEY"
  unfolding toTimeSeries_def by (rule sendDataToPredix_numSends)

lemma toAsset_numSends:
  "\<forall>k h. history m k = Some h \<longrightarrow> numSends h \<le> MAX_NUM_SENDS_PER_KEY \<Longrightarrow>
   \<forall>k h. history (toAsset newId k' v message m) k = Some h \<longrightarrow> numSends h \<le> MAX_NUM_SENDS_PER_KEY"
  unfolding toAsset_def by (rule sendDataToPredix_numSends)

lemma onStateChange_numSends:
  assumes "\<forall>k h. history m k = Some h \<longrightarrow> numSends h \<le> MAX_NUM_SENDS_PER_KEY"
  shows "\<forall>k h. history (onStateChange newIds m) k = Some h \<longrightarrow> numSends h \<le> MAX_NUM_SENDS_PER_KEY"
proof -
  let ?B = "\<lambda>m::predix simulator. \<forall>k h. history m k = Some h \<longrightarrow> numSends h \<le> MAX_NUM_SENDS_PER_KEY"
  let ?st = "state m"
  let ?m1 = "toTimeSeries (newIds ''timeSeries'') ?st m"
  let ?m2 = "if pressure ?st > MAX_ALLOWED_PRESSURE
               then toAsset (newIds ''pressure'') ''pressure'' (pressure ?st)
                      ''Maximum pressure has been exceeded!'' ?m1
               else ?m1"
  let ?m3 = "if speed ?st > MAX_ALLOWED_SPEED
               then toAsset (newIds ''speed'') ''speed'' (speed ?st)
                      ''Maximum speed has been exceeded!'' ?m2
               else ?m2"
  let ?m4 = "if fuelMassInTender ?st < MIN_ALLOWED_FUEL_MASS_IN_TENDER
               then toAsset (newIds ''fuelMassInTender'') ''fuelMassInTender'' (fuelMassInTender ?st)
                      ''Fuel mass in tender is too low!'' ?m3
               else ?m3"
  have 1: "?B ?m1" using assms by (rule toTimeSeries_numSends)
  have 2: "?B ?m2" using 1 toAsset_numSends [OF 1] by presburger
  have 3: "?B ?m3" using 2 toAsset_numSends [OF 2] by presburger
  have 4: "?B ?m4" using 3 toAsset_numSends [OF 3] by presburger
  have "onStateChange newIds m = ?m4"
    by (simp add: onStateChange_def Let_def)
  with 4 show ?thesis by simp
qed

lemma runSimulation_numSends:
  assumes "\<forall>k h. history m k = Some h \<longrightarrow> numSends h \<le> MAX_NUM_SENDS_PER_KEY"
  shows "\<forall>k h. history (runSimulation tok newIds m) k = Some h \<longrightarrow>
           numSends h \<le> MAX_NUM_SENDS_PER_KEY"
proof -
  let ?m0 = "if numIterations m = 0
               then m\<lparr> services := \<lparr> timeSeriesService = new_TimeSeriesService tok,
                                     assetService = new_AssetService tok \<rparr> \<rparr>
               else m"
  let ?m1 = "?m0\<lparr> numIterations := numIterations ?m0 + 1 \<rparr>"
  let ?m2 = "?m1\<lparr> state := advance (state ?m1) \<rparr>"
  have h0: "history ?m0 = history m" by simp
  have "\<forall>k h. history ?m2 k = Some h \<longrightarrow> numSends h \<le> MAX_NUM_SENDS_PER_KEY"
    using assms by simp
  then have "\<forall>k h. history (onStateChange newIds ?m2) k = Some h \<longrightarrow>
      numSends h \<le> MAX_NUM_SENDS_PER_KEY"
    by (rule onStateChange_numSends)
  moreover have "runSimulation tok newIds m =
      (if numIterations ?m0 \<ge> NUM_ITERATIONS then ?m0 else onStateChange newIds ?m2)"
    by (simp add: runSimulation_def Let_def)
  ultimately show ?thesis using assms h0 by presburger
qed

lemma iterations_numSends:
  "\<forall>k h. history m k = Some h \<longrightarrow> numSends h \<le> MAX_NUM_SENDS_PER_KEY \<Longrightarrow>
   \<forall>k h. history (iterations envs m) k = Some h \<longrightarrow> numSends h \<le> MAX_NUM_SENDS_PER_KEY"
proof (induction envs arbitrary: m)
  case Nil
  then show ?case by simp
next
  case (Cons e envs)
  obtain tok newIds where e: "e = (tok, newIds)" by (cases e)
  show ?case
    using Cons.IH [OF runSimulation_numSends [OF Cons.prems, of tok newIds]] e by simp
qed

text \<open>The queues of the services are written by the enqueue and by an acknowledgement only.\<close>

lemma processAssetData_queue [simp]: "queue (processAssetData a) = queue a"
  by (simp add: processAssetData_def Let_def)

lemma processTimeSeriesData_queue [simp]: "queue (processTimeSeriesData t) = queue t"
  by (simp add: processTimeSeriesData_def Let_def)

lemma sendDataToPredix_cases:
  "sendDataToPredix k d sendData m = m \<or>
   sendDataToPredix k d sendData m =
     m\<lparr> services := sendData d (services m),
        history := (history m)(k \<mapsto>
          \<lparr> prevTimeSent = time (state m), numSends = sends_so_far m k + 1 \<rparr>) \<rparr>"
  by (cases "history m k") (auto simp add: sendDataToPredix_def sends_so_far_def Let_def)

lemma sendDataToPredix_numIterations [simp]:
  "numIterations (sendDataToPredix k d sendData m) = numIterations m"
  by (cases "history m k") (simp_all add: sendDataToPredix_def Let_def)

lemma onStateChange_numIterations:
  "numIterations (onStateChange newIds m) = numIterations m"
  by (simp add: onStateChange_def toTimeSeries_def toAsset_def Let_def)

lemma toTimeSeries_enqueued:
  assumes "\<forall>k. enqueued_for k (services m) = sends_so_far m k"
  shows "\<forall>k. enqueued_for k (services (toTimeSeries newId st m)) =
           sends_so_far (toTimeSeries newId st m) k"
proof -
  let ?f = "\<lambda>d w. w\<lparr> timeSeriesService :=
                   TimeSeriesService_sendDataToPredix newId d (timeSeriesService w) \<rparr>"
  from sendDataToPredix_cases [of "''timeSeries''" st ?f m]
  show ?thesis
  proof
    assume "sendDataToPredix ''timeSeries'' st ?f m = m"
    with assms show ?thesis by (simp add: toTimeSeries_def)
  next
    assume "sendDataToPredix ''timeSeries'' st ?f m =
      m\<lparr> services := ?f st (services m),
         history := (history m)(''timeSeries'' \<mapsto>
           \<lparr> prevTimeSent = time (state m), numSends = sends_so_far m ''timeSeries'' + 1 \<rparr>) \<rparr>"
    then have r: "toTimeSeries newId st m =
      m\<lparr> services := ?f st (services m),
         history := (history m)(''timeSeries'' \<mapsto>
           \<lparr> prevTimeSent = time (state m), numSends = sends_so_far m ''timeSeries'' + 1 \<rparr>) \<rparr>"
      by (simp add: toTimeSeries_def)
    show ?thesis
    proof
      fix k
      from assms have "enqueued_for k (services m) = sends_so_far m k" by simp
      then show "enqueued_for k (services (toTimeSeries newId st m)) =
          sends_so_far (toTimeSeries newId st m) k"
        by (auto simp add: r enqueued_for_def sends_so_far_def
            TimeSeriesService_sendDataToPredix_def split: if_splits)
    qed
  qed
qed

lemma toAsset_enqueued:
  assumes "\<forall>k. enqueued_for k (services m) = sends_so_far m k"
  shows "\<forall>k. enqueued_for k (services (toAsset newId k' v message m)) =
           sends_so_far (toAsset newId k' v message m) k"
proof -
  let ?f = "\<lambda>d w. w\<lparr> assetService := AssetService_sendDataToPredix newId d (assetService w) \<rparr>"
  let ?d = "\<lparr> alertKey = k', val = v, alertTime = time (state m), msg = message \<rparr>"
  from sendDataToPredix_cases [of k' ?d ?f m]
  show ?thesis
  proof
    assume "sendDataToPredix k' ?d ?f m = m"
    with assms show ?thesis by (simp add: toAsset_def)
  next
    assume "sendDataToPredix k' ?d ?f m =
      m\<lparr> services := ?f ?d (services m),
         history := (history m)(k' \<mapsto>
           \<lparr> prevTimeSent = time (state m), numSends = sends_so_far m k' + 1 \<rparr>) \<rparr>"
    then have r: "toAsset newId k' v message m =
      m\<lparr> services := ?f ?d (services m),
         history := (history m)(k' \<mapsto>
           \<lparr> prevTimeSent = time (state m), numSends = sends_so_far m k' + 1 \<rparr>) \<rparr>"
      by (simp add: toAsset_def)
    show ?thesis
    proof
      fix k
      from assms have "enqueued_for k (services m) = sends_so_far m k" by simp
      then show "enqueued_for k (services (toAsset newId k' v message m)) =
          sends_so_far (toAsset newId k' v message m) k"
        by (auto simp add: r enqueued_for_def sends_so_far_def
            AssetService_sendDataToPredix_def split: if_splits)
    qed
  qed
qed

lemma onStateChange_enqueued:
  assumes "\<forall>k. enqueued_for k (services m) = sends_so_far m k"
  shows "\<forall>k. enqueued_for k (services (onStateChange newIds m)) =
           sends_so_far (onStateChange newIds m) k"
proof -
  let ?Q = "\<lambda>m::predix simulator. \<forall>k. enqueued_for k (services m) = sends_so_far m k"
  let ?st = "state m"
  let ?m1 = "toTimeSeries (newIds ''timeSeries'') ?st m"
  let ?m2 = "if pressure ?st > MAX_ALLOWED_PRESSURE
               then toAsset (newIds ''pressure'') ''pressure'' (pressure ?st)
                      ''Maximum pressure has been exceeded!'' ?m1
               else ?m1"
  let ?m3 = "if speed ?st > MAX_ALLOWED_SPEED
               then toAsset (newIds ''speed'') ''speed'' (speed ?st)
                      ''Maximum speed has been exceeded!'' ?m2
               else ?m2"
  let ?m4 = "if fuelMassInTender ?st < MIN_ALLOWED_FUEL_MASS_IN_TENDER
               then toAsset (newIds ''fuelMassInTender'') ''fuelMassInTender'' (fuelMassInTender ?st)
                      ''Fuel mass in tender is too low!'' ?m3
               else ?m3"
  have 1: "?Q ?m1" using assms by (rule toTimeSeries_enqueued)
  have 2: "?Q ?m2" using 1 toAsset_enqueued [OF 1] by presburger
  have 3: "?Q ?m3" using 2 toAsset_enqueued [OF 2] by presburger
  have 4: "?Q ?m4" using 3 toAsset_enqueued [OF 3] by presburger
  have "onStateChange newIds m = ?m4"
    by (simp add: onStateChange_def Let_def)
  with 4 show ?thesis by simp
qed

lemma runSimulation_enqueued:
  assumes "numIterations m = 0 \<longrightarrow> history m = Map.empty"
    and "0 < numIterations m \<longrightarrow> (\<forall>k. enqueued_for k (services m) = sends_so_far m k)"
  shows "0 < numIterations (runSimulation tok newIds m) \<and>
         (\<forall>k. enqueued_for k (services (runSimulation tok newIds m)) =
               sends_so_far (runSimulation tok newIds m) k)"
proof -
  let ?m0 = "if numIterations m = 0
               then m\<lparr> services := \<lparr> timeSeriesService = new_TimeSeriesService tok,
                                     assetService = new_AssetService tok \<rparr> \<rparr>
               else m"
  let ?m1 = "?m0\<lparr> numIterations := numIterations ?m0 + 1 \<rparr>"
  let ?m2 = "?m1\<lparr> state := advance (state ?m1) \<rparr>"
  have q0: "\<forall>k. enqueued_for k (services ?m0) = sends_so_far ?m0 k"
    using assms
    by (cases "numIterations m = 0")
      (simp_all add: enqueued_for_def sends_so_far_def new_TimeSeriesService_def
        new_AssetService_def)
  then have "\<forall>k. enqueued_for k (services ?m2) = sends_so_far ?m2 k"
    by (simp add: sends_so_far_def)
  then have q: "\<forall>k. enqueued_for k (services (onStateChange newIds ?m2)) =
      sends_so_far (onStateChange newIds ?m2) k"
    by (rule onStateChange_enqueued)
  have n: "numIterations (onStateChange newIds ?m2) = numIterations ?m2"
    by (rule onStateChange_numIterations)
  have r: "runSimulation tok newIds m =
      (if numIterations ?m0 \<ge> NUM_ITERATIONS then ?m0 else onStateChange newIds ?m2)"
    by (simp add: runSimulation_def Let_def)
  show ?thesis
  proof (cases "numIterations ?m0 \<ge> NUM_ITERATIONS")
    case True
    then have "0 < numIterations ?m0" by (simp add: NUM_ITERATIONS_def split: if_splits)
    with True r q0 show ?thesis by presburger
  next
    case False
    with r have "runSimulation tok newIds m = onStateChange newIds ?m2" by presburger
    with q n show ?thesis by simp
  qed
qed

lemma iterations_enqueued:
  assumes "0 < numIterations m"
    and "\<forall>k. enqueued_for k (services m) = sends_so_far m k"
  shows "\<forall>k. enqueued_for k (services (iterations envs m)) = sends_so_far (iterations envs m) k"
  using assms
proof (induction envs arbitrary: m)
  case Nil
  then show ?case by simp
next
  case (Cons e envs)
  obtain tok newIds where e: "e = (tok, newIds)" by (cases e)
  have "0 < numIterations (runSimulation tok newIds m) \<and>
         (\<forall>k. enqueued_for k (services (runSimulation tok newIds m)) =
               sends_so_far (runSimulation tok newIds m) k)"
    by (rule runSimulation_enqueued) (use Cons.prems in simp_all)
  with Cons.IH [of "runSimulation tok newIds m"] e show ?case by simp
qed

lemma iterations_from_start_enqueued:
  assumes "envs \<noteq> []"
  shows "enqueued_for k (services (iterations envs initial_simulator)) =
         sends_so_far (iterations envs initial_simulator) k"
proof -
  from assms obtain tok newIds rest where envs: "envs = (tok, newIds) # rest"
    by (cases envs) auto
  have "0 < numIterations (runSimulation tok newIds initial_simulator) \<and>
         (\<forall>k. enqueued_for k (services (runSimulation tok newIds initial_simulator)) =
               sends_so_far (runSimulation tok newIds initial_simulator) k)"
    by (rule runSimulation_enqueued) (simp_all add: initial_simulator_def)
  then show ?thesis
    using iterations_enqueued [of "runSimulation tok newIds initial_simulator" rest] envs
    by simp
qed

text \<open>
  C8. Whatever the sequence of calls of the sampling code (keys and times), from an empty
  history the number of values forwarded for a key equals the sends counted for the key
  and is at most \<open>MAX_NUM_SENDS_PER_KEY\<close>. After any number of iterations of the simulator
  the sends counted for a key are at most \<open>MAX_NUM_SENDS_PER_KEY\<close>, and so is the number of
  nodes that the iterations have put into the queues for the key, which equals the sends
  counted.
\<close>

theorem numSends_bounded:
  "count_list
     (services (sampled calls
        \<lparr> state = initial_state, history = Map.empty, numIterations = 0, services = [] \<rparr>)) k =
     sends_so_far (sampled calls
        \<lparr> state = initial_state, history = Map.empty, numIterations = 0, services = [] \<rparr>) k \<and>
   count_list
     (services (sampled calls
        \<lparr> state = initial_state, history = Map.empty, numIterations = 0, services = [] \<rparr>)) k
     \<le> MAX_NUM_SENDS_PER_KEY \<and>
   sends_so_far (iterations envs initial_simulator) k \<le> MAX_NUM_SENDS_PER_KEY \<and>
   (envs \<noteq> [] \<longrightarrow>
      enqueued_for k (services (iterations envs initial_simulator)) =
        sends_so_far (iterations envs initial_simulator) k \<and>
      enqueued_for k (services (iterations envs initial_simulator)) \<le> MAX_NUM_SENDS_PER_KEY)"
proof -
  let ?m = "\<lparr> state = initial_state, history = Map.empty, numIterations = 0,
              services = [] :: string list \<rparr>"
  have inv: "(\<forall>k h. history (sampled calls ?m) k = Some h \<longrightarrow> numSends h \<le> MAX_NUM_SENDS_PER_KEY) \<and>
         (\<forall>k. count_list (services (sampled calls ?m)) k =
               (case history (sampled calls ?m) k of None \<Rightarrow> 0 | Some h \<Rightarrow> numSends h))"
    by (rule sampled_invariants) simp_all
  then have eq: "count_list (services (sampled calls ?m)) k = sends_so_far (sampled calls ?m) k"
    by (simp add: sends_so_far_def)
  have le: "count_list (services (sampled calls ?m)) k \<le> MAX_NUM_SENDS_PER_KEY"
    using inv eq by (cases "history (sampled calls ?m) k") (auto simp add: sends_so_far_def)
  have "\<forall>k h. history (iterations envs initial_simulator) k = Some h \<longrightarrow>
      numSends h \<le> MAX_NUM_SENDS_PER_KEY"
    by (rule iterations_numSends) (simp add: initial_simulator_def)
  then have it: "sends_so_far (iterations envs initial_simulator) k \<le> MAX_NUM_SENDS_PER_KEY"
    by (cases "history (iterations envs initial_simulator) k") (auto simp add: sends_so_far_def)
  have "envs \<noteq> [] \<longrightarrow>
      enqueued_for k (services (iterations envs initial_simulator)) =
        sends_so_far (iterations envs initial_simulator) k"
    using iterations_from_start_enqueued [of envs k] by (rule impI)
  with eq le it show ?thesis by presburger
qed

theorem numSends_bounded_witness:
  "[(''t'', id)] \<noteq> [] \<and>
   sends_so_far (iterations [(''t'', id)] initial_simulator) ''timeSeries'' = 1 \<and>
   enqueued_for ''timeSeries'' (services (iterations [(''t'', id)] initial_simulator)) = 1 \<and>
   enqueued_for ''timeSeries'' (services (iterations [(''t'', id)] initial_simulator))
     \<le> MAX_NUM_SENDS_PER_KEY"
proof -
  have h: "history (iterations [(''t'', id)] initial_simulator) ''timeSeries'' =
      Some \<lparr> prevTimeSent = 1 / 10, numSends = 1 \<rparr>"
    by (simp add: runSimulation_def onStateChange_def toTimeSeries_def toAsset_def
        sendDataToPredix_def initial_simulator_def initial_state_def advance_eq Movement_def
        FireChamber_def Fireman_def Let_def NUM_ITERATIONS_def MAX_NUM_SENDS_PER_KEY_def
        MAX_ALLOWED_PRESSURE_def MAX_ALLOWED_SPEED_def MIN_ALLOWED_FUEL_MASS_IN_TENDER_def
        INITIAL_FUEL_MASS_IN_TENDER_def LOCOMOTIVE_OWN_MASS_def FUEL_ADD_AMT_def
        FUEL_BURN_AMT_def PRESSURE_MULTIPLIER_def MAX_FUEL_MASS_IN_FIRE_CHAMBER_def
        X1_def X2_def X3_def DT_def)
  then have s: "sends_so_far (iterations [(''t'', id)] initial_simulator) ''timeSeries'' = 1"
    by (simp add: sends_so_far_def)
  have n: "[(''t'', id :: string \<Rightarrow> string)] \<noteq> []"
    by simp
  have e: "enqueued_for ''timeSeries'' (services (iterations [(''t'', id)] initial_simulator)) =
        sends_so_far (iterations [(''t'', id)] initial_simulator) ''timeSeries'' \<and>
      enqueued_for ''timeSeries'' (services (iterations [(''t'', id)] initial_simulator))
        \<le> MAX_NUM_SENDS_PER_KEY"
    by (rule numSends_bounded [of "[]" "''timeSeries''" "[(''t'', id)]",
          THEN conjunct2, THEN conjunct2, THEN conjunct2, THEN mp, OF n])
  with n s show ?thesis by simp
qed

section \<open>Helper: properties\<close>

lemma setItemsInProgress_append:
  "length acc < MAX_NODES_TO_QUEUE_PER_SEND \<Longrightarrow>
   setItemsInProgress q acc = acc @ take (MAX_NODES_TO_QUEUE_PER_SEND - length acc) q"
proof (induction q arbitrary: acc)
  case Nil
  then show ?case by simp
next
  case (Cons n q)
  show ?case
  proof (cases "Suc (length acc) = MAX_NODES_TO_QUEUE_PER_SEND")
    case True
    then have "MAX_NODES_TO_QUEUE_PER_SEND - length acc = Suc 0" by simp
    with True show ?thesis by (simp add: Let_def)
  next
    case False
    with Cons.prems have lt: "length (acc @ [n]) < MAX_NODES_TO_QUEUE_PER_SEND" by simp
    from Cons.prems obtain j where j: "MAX_NODES_TO_QUEUE_PER_SEND - length acc = Suc j"
      by (cases "MAX_NODES_TO_QUEUE_PER_SEND - length acc") simp_all
    then have "MAX_NODES_TO_QUEUE_PER_SEND - length (acc @ [n]) = j" by simp
    with Cons.IH [OF lt] False j show ?thesis by (simp add: Let_def)
  qed
qed

lemma setItemsInProgress_take:
  "setItemsInProgress q [] = take MAX_NODES_TO_QUEUE_PER_SEND q"
  using setItemsInProgress_append [of "[]" q] by (simp add: MAX_NODES_TO_QUEUE_PER_SEND_def)

lemma removeProcessedItemsFromQueue_filter:
  "removeProcessedItemsFromQueue q ip = filter (\<lambda>n. key n \<notin> key ` set ip) q"
  unfolding removeProcessedItemsFromQueue_def
proof (induction ip arbitrary: q)
  case Nil
  then show ?case by simp
next
  case (Cons item ip)
  have "filter (\<lambda>n. key n \<notin> key ` set ip) (filter (\<lambda>n. key n \<noteq> key item) q) =
      filter (\<lambda>n. key n \<notin> key ` set (item # ip)) q"
    by (induction q) auto
  with Cons show ?case by simp
qed



section \<open>The services: properties\<close>

lemma processAssetData_items:
  "\<not> isOperationInProgress a \<Longrightarrow>
   itemsInProgress (processAssetData a) = take MAX_NODES_TO_QUEUE_PER_SEND (queue a)"
  by (simp add: processAssetData_def Let_def setItemsInProgress_take)

lemma processTimeSeriesData_items:
  "\<not> isOperationInProgress t \<Longrightarrow>
   itemsInProgress (processTimeSeriesData t) = take MAX_NODES_TO_QUEUE_PER_SEND (queue t)"
  by (simp add: processTimeSeriesData_def Let_def setItemsInProgress_take)

lemma processAssetData_items_bound:
  "length (itemsInProgress a) \<le> MAX_NODES_TO_QUEUE_PER_SEND \<Longrightarrow>
   length (itemsInProgress (processAssetData a)) \<le> MAX_NODES_TO_QUEUE_PER_SEND"
  by (simp add: processAssetData_def Let_def setItemsInProgress_take)

lemma processTimeSeriesData_items_bound:
  "length (itemsInProgress t) \<le> MAX_NODES_TO_QUEUE_PER_SEND \<Longrightarrow>
   length (itemsInProgress (processTimeSeriesData t)) \<le> MAX_NODES_TO_QUEUE_PER_SEND"
  by (simp add: processTimeSeriesData_def Let_def setItemsInProgress_take)

lemma asset_step_items_bound:
  "length (itemsInProgress a) \<le> MAX_NODES_TO_QUEUE_PER_SEND \<Longrightarrow>
   length (itemsInProgress (asset_step e a)) \<le> MAX_NODES_TO_QUEUE_PER_SEND"
  by (cases e)
    (simp_all add: AssetService_sendDataToPredix_def handlePostResponse_def assetRetry_start_def
      assetRetry_resume_def Let_def processAssetData_items_bound)

lemma ts_step_items_bound:
  "length (itemsInProgress t) \<le> MAX_NODES_TO_QUEUE_PER_SEND \<Longrightarrow>
   length (itemsInProgress (ts_step e t)) \<le> MAX_NODES_TO_QUEUE_PER_SEND"
  by (cases e)
    (simp_all add: TimeSeriesService_sendDataToPredix_def ws_onopen_def ws_onmessage_def
      ws_onerror_def timeSeriesRetry_start_def timeSeriesRetry_resume_def Let_def
      processTimeSeriesData_items_bound split: option.splits)

lemma asset_run_items_bound:
  "length (itemsInProgress a) \<le> MAX_NODES_TO_QUEUE_PER_SEND \<Longrightarrow>
   length (itemsInProgress (asset_run evs a)) \<le> MAX_NODES_TO_QUEUE_PER_SEND"
  by (induction evs arbitrary: a) (simp_all add: asset_step_items_bound)

lemma ts_run_items_bound:
  "length (itemsInProgress t) \<le> MAX_NODES_TO_QUEUE_PER_SEND \<Longrightarrow>
   length (itemsInProgress (ts_run evs t)) \<le> MAX_NODES_TO_QUEUE_PER_SEND"
  by (induction evs arbitrary: t) (simp_all add: ts_step_items_bound)

subsection \<open>The batch of a drain\<close>

text \<open>
  C7. Called with an empty \<open>itemsInProgress\<close>, as both drains call it,
  \<open>Helper.setItemsInProgress\<close> yields the first \<open>min (length queue) MAX_NODES_TO_QUEUE_PER_SEND\<close>
  nodes of the queue in queue order, never more than the limit. A drain that begins with
  no operation in progress sets \<open>itemsInProgress\<close> to these nodes and leaves the queue as
  it is, so the nodes behind them (and the batch itself, until it is acknowledged) stay
  queued. Along any sequence of events of a service \<open>itemsInProgress\<close> holds at most
  \<open>MAX_NODES_TO_QUEUE_PER_SEND\<close> nodes.
\<close>

theorem setItemsInProgress_batch:
  "setItemsInProgress q [] = take (min (length q) MAX_NODES_TO_QUEUE_PER_SEND) q \<and>
   length (setItemsInProgress q []) \<le> MAX_NODES_TO_QUEUE_PER_SEND \<and>
   (\<not> isOperationInProgress a \<longrightarrow>
      itemsInProgress (processAssetData a) =
        take (min (length (queue a)) MAX_NODES_TO_QUEUE_PER_SEND) (queue a) \<and>
      queue (processAssetData a) = queue a) \<and>
   (\<not> isOperationInProgress t \<longrightarrow>
      itemsInProgress (processTimeSeriesData t) =
        take (min (length (queue t)) MAX_NODES_TO_QUEUE_PER_SEND) (queue t) \<and>
      queue (processTimeSeriesData t) = queue t) \<and>
   length (itemsInProgress (asset_run aevs (new_AssetService tok))) \<le> MAX_NODES_TO_QUEUE_PER_SEND \<and>
   length (itemsInProgress (ts_run tevs (new_TimeSeriesService tok))) \<le> MAX_NODES_TO_QUEUE_PER_SEND"
proof -
  have m: "take (min (length xs) MAX_NODES_TO_QUEUE_PER_SEND) xs = take MAX_NODES_TO_QUEUE_PER_SEND xs"
    for xs :: "'x list"
    by (simp add: min_def)
  have "length (itemsInProgress (asset_run aevs (new_AssetService tok))) \<le> MAX_NODES_TO_QUEUE_PER_SEND"
    by (rule asset_run_items_bound) (simp add: new_AssetService_def)
  moreover have "length (itemsInProgress (ts_run tevs (new_TimeSeriesService tok))) \<le> MAX_NODES_TO_QUEUE_PER_SEND"
    by (rule ts_run_items_bound) (simp add: new_TimeSeriesService_def)
  ultimately show ?thesis
    by (simp add: m setItemsInProgress_take processAssetData_items processTimeSeriesData_items)
qed

theorem setItemsInProgress_batch_witness:
  "\<not> isOperationInProgress
       ((new_AssetService ''t'')
          \<lparr> queue := [\<lparr> key = ''k'', data = \<lparr> alertKey = ''speed'', val = 28, alertTime = 1, msg = ''m'' \<rparr> \<rparr>] \<rparr>) \<and>
   itemsInProgress
     (processAssetData
        ((new_AssetService ''t'')
           \<lparr> queue := [\<lparr> key = ''k'', data = \<lparr> alertKey = ''speed'', val = 28, alertTime = 1, msg = ''m'' \<rparr> \<rparr>] \<rparr>)) =
     [\<lparr> key = ''k'', data = \<lparr> alertKey = ''speed'', val = 28, alertTime = 1, msg = ''m'' \<rparr> \<rparr>] \<and>
   \<not> isOperationInProgress
       ((new_TimeSeriesService ''t'')\<lparr> queue := [\<lparr> key = ''k'', data = initial_state \<rparr>] \<rparr>) \<and>
   itemsInProgress
     (processTimeSeriesData
        ((new_TimeSeriesService ''t'')\<lparr> queue := [\<lparr> key = ''k'', data = initial_state \<rparr>] \<rparr>)) =
     [\<lparr> key = ''k'', data = initial_state \<rparr>]"
  using setItemsInProgress_batch [of "[]"
      "(new_AssetService ''t'')
          \<lparr> queue := [\<lparr> key = ''k'', data = \<lparr> alertKey = ''speed'', val = 28, alertTime = 1, msg = ''m'' \<rparr> \<rparr>] \<rparr>"
      "(new_TimeSeriesService ''t'')\<lparr> queue := [\<lparr> key = ''k'', data = initial_state \<rparr>] \<rparr>"
      "[]" "''t''" "[]"]
  by (simp add: new_AssetService_def new_TimeSeriesService_def MAX_NODES_TO_QUEUE_PER_SEND_def)

subsection \<open>A failed transmission\<close>

lemma assetRetry_resume_post:
  "\<not> isOperationInProgress a \<Longrightarrow> queue a \<noteq> [] \<Longrightarrow>
   effects (assetRetry_resume tok a) =
     effects a @ [Post tok (take MAX_NODES_TO_QUEUE_PER_SEND (queue a))]"
  by (simp add: assetRetry_resume_def processAssetData_def Let_def setItemsInProgress_take
      MAX_NODES_TO_QUEUE_PER_SEND_def)

lemma timeSeriesRetry_resume_socket:
  "\<not> isOperationInProgress t \<Longrightarrow> queue t \<noteq> [] \<Longrightarrow> \<not> ws t \<Longrightarrow>
   effects (timeSeriesRetry_resume tok t) = effects t @ [CreateWebSocket tok] \<and>
   awaiting (timeSeriesRetry_resume tok t) = Some (take MAX_NODES_TO_QUEUE_PER_SEND (queue t))"
  by (simp add: timeSeriesRetry_resume_def processTimeSeriesData_def Let_def
      setItemsInProgress_take MAX_NODES_TO_QUEUE_PER_SEND_def)

text \<open>
  C2. A failed POST (\<open>err\<close> set, or a response that is not ok) leaves the queue of the
  asset service as it is, clears the flag and hands the retry callback to \<open>setTimeout\<close>
  with a delay of \<open>WAIT_SECONDS_BETWEEN_FAILED_REQUESTS\<close> seconds. A socket error leaves the
  queue of the time series service as it is, drops the socket and schedules its retry
  callback with the same delay. Either callback clears the flag, calls
  \<open>Helper.getPredixToken\<close>, stores the value it resolves to as the token and drains again:
  with a queue that is not empty the drain sends the head of the unchanged queue with the
  new token (a POST, or a new socket that will carry it). No step of the path removes a
  node from the queue.
\<close>

theorem failure_keeps_queue_and_schedules_retry:
  "(err \<or> \<not> res_ok \<longrightarrow>
      queue (handlePostResponse err res_ok a) = queue a \<and>
      \<not> isOperationInProgress (handlePostResponse err res_ok a) \<and>
      effects (handlePostResponse err res_ok a) =
        effects a @ [SetTimeout (WAIT_SECONDS_BETWEEN_FAILED_REQUESTS * 1000)]) \<and>
   queue (assetRetry_start a) = queue a \<and>
   \<not> isOperationInProgress (assetRetry_start a) \<and>
   effects (assetRetry_start a) = effects a @ [GetPredixToken] \<and>
   queue (assetRetry_resume tok a) = queue a \<and>
   token (assetRetry_resume tok a) = tok \<and>
   (\<not> isOperationInProgress a \<and> queue a \<noteq> [] \<longrightarrow>
      effects (assetRetry_resume tok a) =
        effects a @ [Post tok (take MAX_NODES_TO_QUEUE_PER_SEND (queue a))]) \<and>
   queue (ws_onerror t) = queue t \<and>
   \<not> ws (ws_onerror t) \<and>
   effects (ws_onerror t) = effects t @ [SetTimeout (WAIT_SECONDS_BETWEEN_FAILED_REQUESTS * 1000)] \<and>
   queue (timeSeriesRetry_start t) = queue t \<and>
   \<not> isOperationInProgress (timeSeriesRetry_start t) \<and>
   effects (timeSeriesRetry_start t) = effects t @ [GetPredixToken] \<and>
   queue (timeSeriesRetry_resume tok t) = queue t \<and>
   token (timeSeriesRetry_resume tok t) = tok \<and>
   (\<not> isOperationInProgress t \<and> queue t \<noteq> [] \<and> \<not> ws t \<longrightarrow>
      effects (timeSeriesRetry_resume tok t) = effects t @ [CreateWebSocket tok] \<and>
      awaiting (timeSeriesRetry_resume tok t) = Some (take MAX_NODES_TO_QUEUE_PER_SEND (queue t)))"
proof -
  have 1: "err \<or> \<not> res_ok \<longrightarrow>
      queue (handlePostResponse err res_ok a) = queue a \<and>
      \<not> isOperationInProgress (handlePostResponse err res_ok a) \<and>
      effects (handlePostResponse err res_ok a) =
        effects a @ [SetTimeout (WAIT_SECONDS_BETWEEN_FAILED_REQUESTS * 1000)]"
    by (simp add: handlePostResponse_def Let_def)
  have 2: "queue (assetRetry_start a) = queue a \<and> \<not> isOperationInProgress (assetRetry_start a) \<and>
      effects (assetRetry_start a) = effects a @ [GetPredixToken]"
    by (simp add: assetRetry_start_def Let_def)
  have 3: "queue (assetRetry_resume tok a) = queue a \<and> token (assetRetry_resume tok a) = tok"
    by (simp add: assetRetry_resume_def processAssetData_def Let_def)
  have 4: "queue (ws_onerror t) = queue t \<and> \<not> ws (ws_onerror t) \<and>
      effects (ws_onerror t) = effects t @ [SetTimeout (WAIT_SECONDS_BETWEEN_FAILED_REQUESTS * 1000)]"
    by (simp add: ws_onerror_def Let_def)
  have 5: "queue (timeSeriesRetry_start t) = queue t \<and>
      \<not> isOperationInProgress (timeSeriesRetry_start t) \<and>
      effects (timeSeriesRetry_start t) = effects t @ [GetPredixToken]"
    by (simp add: timeSeriesRetry_start_def Let_def)
  have 6: "queue (timeSeriesRetry_resume tok t) = queue t \<and> token (timeSeriesRetry_resume tok t) = tok"
    by (simp add: timeSeriesRetry_resume_def processTimeSeriesData_def Let_def)
  from 1 2 3 4 5 6 assetRetry_resume_post [of a tok] timeSeriesRetry_resume_socket [of t tok]
  show ?thesis by blast
qed

theorem failure_keeps_queue_and_schedules_retry_witness:
  "queue (handlePostResponse True False
       ((new_AssetService ''old'')
          \<lparr> queue := [\<lparr> key = ''k'', data = \<lparr> alertKey = ''speed'', val = 28, alertTime = 1, msg = ''m'' \<rparr> \<rparr>] \<rparr>)) =
     [\<lparr> key = ''k'', data = \<lparr> alertKey = ''speed'', val = 28, alertTime = 1, msg = ''m'' \<rparr> \<rparr>] \<and>
   effects (handlePostResponse True False
       ((new_AssetService ''old'')
          \<lparr> queue := [\<lparr> key = ''k'', data = \<lparr> alertKey = ''speed'', val = 28, alertTime = 1, msg = ''m'' \<rparr> \<rparr>] \<rparr>)) =
     [SetTimeout 5000] \<and>
   effects (assetRetry_resume ''new''
       ((new_AssetService ''old'')
          \<lparr> queue := [\<lparr> key = ''k'', data = \<lparr> alertKey = ''speed'', val = 28, alertTime = 1, msg = ''m'' \<rparr> \<rparr>] \<rparr>)) =
     [Post ''new'' [\<lparr> key = ''k'', data = \<lparr> alertKey = ''speed'', val = 28, alertTime = 1, msg = ''m'' \<rparr> \<rparr>]] \<and>
   effects (timeSeriesRetry_resume ''new''
       ((new_TimeSeriesService ''old'')\<lparr> queue := [\<lparr> key = ''k'', data = initial_state \<rparr>] \<rparr>)) =
     [CreateWebSocket ''new'']"
  using failure_keeps_queue_and_schedules_retry [of True False
      "(new_AssetService ''old'')
          \<lparr> queue := [\<lparr> key = ''k'', data = \<lparr> alertKey = ''speed'', val = 28, alertTime = 1, msg = ''m'' \<rparr> \<rparr>] \<rparr>"
      "''new''"
      "(new_TimeSeriesService ''old'')\<lparr> queue := [\<lparr> key = ''k'', data = initial_state \<rparr>] \<rparr>"]
  by (simp add: new_AssetService_def new_TimeSeriesService_def
      WAIT_SECONDS_BETWEEN_FAILED_REQUESTS_def MAX_NODES_TO_QUEUE_PER_SEND_def)

subsection \<open>An acknowledged transmission\<close>

lemma removed_partition:
  "mset (filter (\<lambda>n. n \<notin> set (filter P q)) q) + mset (filter P q) = mset q"
proof -
  have "filter (\<lambda>n. n \<notin> set (filter P q)) q = filter (\<lambda>n. \<not> P n) q"
    by (rule filter_cong) auto
  then show ?thesis
    by (simp add: add.commute)
qed

lemma removed_none:
  "filter (\<lambda>n. n \<notin> set (q @ xs)) q = []" "filter (\<lambda>n. n \<notin> set q) q = []"
  by (simp_all add: filter_empty_conv)

lemma asset_step_conservation:
  "mset (filter (\<lambda>n. n \<notin> set (queue (asset_step e s))) (queue s)) + mset (queue (asset_step e s)) =
   mset (queue s) + mset (asset_enqueued [e])"
proof (cases e)
  case (AssetSend newId d)
  then show ?thesis
    by (simp add: AssetService_sendDataToPredix_def removed_none)
next
  case (AssetResponse err res_ok)
  show ?thesis
  proof (cases "err \<or> \<not> res_ok")
    case True
    with AssetResponse show ?thesis
      by (simp add: handlePostResponse_def Let_def removed_none)
  next
    case False
    with AssetResponse have "queue (asset_step e s) =
        filter (\<lambda>n. key n \<notin> key ` set (itemsInProgress s)) (queue s)"
      by (simp add: handlePostResponse_def Let_def removeProcessedItemsFromQueue_filter)
    with AssetResponse show ?thesis
      using removed_partition [of "\<lambda>n. key n \<notin> key ` set (itemsInProgress s)" "queue s"]
      by simp
  qed
next
  case AssetRetryStart
  then show ?thesis by (simp add: assetRetry_start_def Let_def removed_none)
next
  case (AssetRetryResume tok)
  then show ?thesis by (simp add: assetRetry_resume_def removed_none)
qed

lemma asset_enqueued_Cons: "asset_enqueued (e # es) = asset_enqueued [e] @ asset_enqueued es"
  by (cases e) simp_all

lemma asset_conservation:
  "mset (asset_removed evs s) + mset (queue (asset_run evs s)) =
   mset (queue s) + mset (asset_enqueued evs)"
proof (induction evs arbitrary: s)
  case Nil
  then show ?case by simp
next
  case (Cons e evs)
  have "mset (asset_removed (e # evs) s) + mset (queue (asset_run (e # evs) s)) =
      mset (filter (\<lambda>n. n \<notin> set (queue (asset_step e s))) (queue s)) +
      (mset (asset_removed evs (asset_step e s)) + mset (queue (asset_run evs (asset_step e s))))"
    by simp
  also have "\<dots> = mset (filter (\<lambda>n. n \<notin> set (queue (asset_step e s))) (queue s)) +
      (mset (queue (asset_step e s)) + mset (asset_enqueued evs))"
    by (simp only: Cons.IH)
  also have "\<dots> = mset (queue s) + mset (asset_enqueued [e]) + mset (asset_enqueued evs)"
    using asset_step_conservation [of e s] by (simp add: add.assoc [symmetric])
  finally show ?case
    by (simp add: asset_enqueued_Cons [of e evs])
qed

lemma ts_step_conservation:
  "mset (filter (\<lambda>n. n \<notin> set (queue (ts_step e s))) (queue s)) + mset (queue (ts_step e s)) =
   mset (queue s) + mset (ts_enqueued [e])"
proof (cases e)
  case (TsSend newId d)
  then show ?thesis
    by (simp add: TimeSeriesService_sendDataToPredix_def removed_none)
next
  case TsOpen
  then show ?thesis by (simp add: ws_onopen_def removed_none split: option.splits)
next
  case TsMessage
  then have "queue (ts_step e s) =
      filter (\<lambda>n. key n \<notin> key ` set (itemsInProgress s)) (queue s)"
    by (simp add: ws_onmessage_def Let_def removeProcessedItemsFromQueue_filter)
  with TsMessage show ?thesis
    using removed_partition [of "\<lambda>n. key n \<notin> key ` set (itemsInProgress s)" "queue s"]
    by simp
next
  case TsError
  then show ?thesis by (simp add: ws_onerror_def Let_def removed_none)
next
  case TsRetryStart
  then show ?thesis by (simp add: timeSeriesRetry_start_def Let_def removed_none)
next
  case (TsRetryResume tok)
  then show ?thesis by (simp add: timeSeriesRetry_resume_def removed_none)
qed

lemma ts_enqueued_Cons: "ts_enqueued (e # es) = ts_enqueued [e] @ ts_enqueued es"
  by (cases e) simp_all

lemma ts_conservation:
  "mset (ts_removed evs s) + mset (queue (ts_run evs s)) =
   mset (queue s) + mset (ts_enqueued evs)"
proof (induction evs arbitrary: s)
  case Nil
  then show ?case by simp
next
  case (Cons e evs)
  have "mset (ts_removed (e # evs) s) + mset (queue (ts_run (e # evs) s)) =
      mset (filter (\<lambda>n. n \<notin> set (queue (ts_step e s))) (queue s)) +
      (mset (ts_removed evs (ts_step e s)) + mset (queue (ts_run evs (ts_step e s))))"
    by simp
  also have "\<dots> = mset (filter (\<lambda>n. n \<notin> set (queue (ts_step e s))) (queue s)) +
      (mset (queue (ts_step e s)) + mset (ts_enqueued evs))"
    by (simp only: Cons.IH)
  also have "\<dots> = mset (queue s) + mset (ts_enqueued [e]) + mset (ts_enqueued evs)"
    using ts_step_conservation [of e s] by (simp add: add.assoc [symmetric])
  finally show ?case
    by (simp add: ts_enqueued_Cons [of e evs])
qed

lemma distinct_keys_of_part:
  assumes "mset xs + mset ys = mset zs" and "distinct (map f zs)"
  shows "distinct (map f xs)"
proof -
  have "mset (map f xs) + mset (map f ys) = mset (map f zs)"
    using assms(1) by (metis image_mset_union mset_map)
  then have sub: "mset (map f xs) \<subseteq># mset (map f zs)"
    by (metis mset_subset_eq_add_left)
  have "count (mset (map f xs)) a = (if a \<in> set (map f xs) then 1 else 0)" for a
  proof -
    have "count (mset (map f xs)) a \<le> count (mset (map f zs)) a"
      using sub by (rule mset_subset_eq_count)
    moreover have "count (mset (map f zs)) a \<le> 1"
      using assms(2) distinct_count_atmost_1 [of "map f zs"] by simp
    ultimately have le: "count (mset (map f xs)) a \<le> 1" by simp
    show ?thesis
    proof (cases "a \<in> set (map f xs)")
      case True
      then have "0 < count (mset (map f xs)) a" by (rule count_mset_gt_0)
      with le have "count (mset (map f xs)) a = 1" by linarith
      with True show ?thesis by (simp only: if_True)
    next
      case False
      then have "count (mset (map f xs)) a = 0" by (simp only: count_mset_0_iff not_False_eq_True)
      with False show ?thesis by (simp only: if_False)
    qed
  qed
  then show ?thesis
    unfolding distinct_count_atmost_1 [of "map f xs"] by blast
qed

lemma asset_removed_distinct:
  "distinct (map key (queue s @ asset_enqueued evs)) \<Longrightarrow> distinct (map key (asset_removed evs s))"
  using asset_conservation [of evs s]
    distinct_keys_of_part [of "asset_removed evs s" "queue (asset_run evs s)"
      "queue s @ asset_enqueued evs" key]
  by simp

lemma ts_removed_distinct:
  "distinct (map key (queue s @ ts_enqueued evs)) \<Longrightarrow> distinct (map key (ts_removed evs s))"
  using ts_conservation [of evs s]
    distinct_keys_of_part [of "ts_removed evs s" "queue (ts_run evs s)"
      "queue s @ ts_enqueued evs" key]
  by simp












section \<open>Startup without a token\<close>

text \<open>
  C4 fails on \<open>runSimulation\<close>. \<open>Helper.getPredixToken\<close> turns a failed acquisition into the
  value \<open>'no_token'\<close>, and \<open>runSimulation\<close> does not compare the token with it (the
  verification utility does, and returns): the first call constructs both services with
  \<open>'no_token'\<close>, advances the state and hands it to the time series service, which enqueues
  it and opens a web socket with that token; when the socket opens, the state is sent.
\<close>

theorem runSimulation_no_token_sends:
  "getPredixToken Rejected = ''no_token'' \<and>
   token (assetService (services (runSimulation (getPredixToken Rejected) id initial_simulator))) =
     ''no_token'' \<and>
   queue (timeSeriesService
     (services (runSimulation (getPredixToken Rejected) id initial_simulator))) =
     [\<lparr> key = ''timeSeries'', data = advance initial_state \<rparr>] \<and>
   effects (timeSeriesService
     (services (runSimulation (getPredixToken Rejected) id initial_simulator))) =
     [CreateWebSocket ''no_token''] \<and>
   effects (ws_onopen (timeSeriesService
     (services (runSimulation (getPredixToken Rejected) id initial_simulator)))) =
     [CreateWebSocket ''no_token'',
      WsSend [\<lparr> key = ''timeSeries'', data = advance initial_state \<rparr>]]"
proof -
  let ?m = "initial_simulator
      \<lparr> services := \<lparr> timeSeriesService = new_TimeSeriesService ''no_token'',
                      assetService = new_AssetService ''no_token'' \<rparr>,
        numIterations := 1, state := advance initial_state \<rparr>"
  have st: "pressure (advance initial_state) = 2 \<and> speed (advance initial_state) = 0 \<and>
      fuelMassInTender (advance initial_state) = 12699"
    by (simp add: advance_eq Movement_def FireChamber_def Fireman_def initial_state_def Let_def
        INITIAL_FUEL_MASS_IN_TENDER_def LOCOMOTIVE_OWN_MASS_def FUEL_ADD_AMT_def
        FUEL_BURN_AMT_def PRESSURE_MULTIPLIER_def MAX_FUEL_MASS_IN_FIRE_CHAMBER_def
        X1_def X2_def X3_def DT_def)
  have run: "runSimulation (getPredixToken Rejected) id initial_simulator = onStateChange id ?m"
    by (simp add: runSimulation_def getPredixToken_def initial_simulator_def Let_def
        NUM_ITERATIONS_def)
  have ts: "toTimeSeries ''timeSeries'' (advance initial_state) ?m =
      ?m\<lparr> services := \<lparr> timeSeriesService =
              TimeSeriesService_sendDataToPredix ''timeSeries'' (advance initial_state)
                (new_TimeSeriesService ''no_token''),
            assetService = new_AssetService ''no_token'' \<rparr>,
          history := [''timeSeries'' \<mapsto>
            \<lparr> prevTimeSent = time (advance initial_state), numSends = 1 \<rparr>] \<rparr>"
    by (simp add: toTimeSeries_def sendDataToPredix_def initial_simulator_def Let_def
        MAX_NUM_SENDS_PER_KEY_def)
  have "onStateChange id ?m = toTimeSeries ''timeSeries'' (advance initial_state) ?m"
    using st
    by (simp add: onStateChange_def Let_def MAX_ALLOWED_PRESSURE_def MAX_ALLOWED_SPEED_def
        MIN_ALLOWED_FUEL_MASS_IN_TENDER_def)
  with run ts have "services (runSimulation (getPredixToken Rejected) id initial_simulator) =
      \<lparr> timeSeriesService =
          TimeSeriesService_sendDataToPredix ''timeSeries'' (advance initial_state)
            (new_TimeSeriesService ''no_token''),
        assetService = new_AssetService ''no_token'' \<rparr>"
    by simp
  then show ?thesis
    by (simp add: getPredixToken_def TimeSeriesService_sendDataToPredix_def
        processTimeSeriesData_def new_TimeSeriesService_def new_AssetService_def ws_onopen_def
        Let_def MAX_NODES_TO_QUEUE_PER_SEND_def)
qed

end
